theory Spec2Isabelle
  imports Main
begin

section \<open>Strings as the source uses them\<close>

text \<open>
  A JavaScript string is modelled as a \<open>string\<close>, the list of the bytes of its UTF-8
  encoding, so that every text the user can type and every text the transport can
  deliver has a counterpart.  A surrogate code unit that is not part of a pair (which
  only an escape in a JSON text can produce here) is written in the same scheme, as
  three bytes.  The helpers below are the string methods the source calls: \<open>split\<close>
  with a one-character separator, \<open>startsWith\<close>, \<open>trim\<close>, the decimal rendering of an
  integer (\<open>toString\<close>, template literals) and the idiom \<open>a || b\<close> on strings, which
  yields \<open>b\<close> when \<open>a\<close> is the empty string.  The separators and prefixes the source
  uses are ASCII characters, which are single bytes and occur in no longer encoding.
\<close>

fun split_on :: "char \<Rightarrow> string \<Rightarrow> string list" where
  "split_on c [] = [[]]"
| "split_on c (x # xs) =
     (if x = c then [] # split_on c xs
      else (case split_on c xs of
              [] \<Rightarrow> [[x]]
            | y # ys \<Rightarrow> (x # y) # ys))"

fun startsWith :: "string \<Rightarrow> string \<Rightarrow> bool" where
  "startsWith [] s = True"
| "startsWith (p # ps) [] = False"
| "startsWith (p # ps) (c # cs) = (p = c \<and> startsWith ps cs)"

definition or_else :: "string \<Rightarrow> string \<Rightarrow> string" where
  "or_else a b = (if a = [] then b else a)"

text \<open>
  \<open>String.prototype.trim\<close> removes white space and line terminators from both ends:
  the characters U+0009 to U+000D and U+0020, which are single bytes; U+00A0, which is
  two bytes; and U+1680, U+2000 to U+200A, U+2028, U+2029, U+202F, U+205F, U+3000 and
  U+FEFF, which are three bytes each.  \<open>trimEnd_rev\<close> removes them from the end of a
  string given in reverse.
\<close>

definition is_white_space_1 :: "char \<Rightarrow> bool" where
  "is_white_space_1 a =
     (a = CHR 0x09 \<or> a = CHR 0x0A \<or> a = CHR 0x0B \<or> a = CHR 0x0C \<or> a = CHR 0x0D
      \<or> a = CHR 0x20)"

definition is_white_space_2 :: "char \<Rightarrow> char \<Rightarrow> bool" where
  "is_white_space_2 a b = (a = CHR 0xC2 \<and> b = CHR 0xA0)"

definition is_white_space_3 :: "char \<Rightarrow> char \<Rightarrow> char \<Rightarrow> bool" where
  "is_white_space_3 a b c =
     ((a = CHR 0xE1 \<and> b = CHR 0x9A \<and> c = CHR 0x80)
      \<or> (a = CHR 0xE2 \<and> b = CHR 0x80
          \<and> ((0x80 \<le> (of_char c :: nat) \<and> (of_char c :: nat) \<le> 0x8A)
              \<or> c = CHR 0xA8 \<or> c = CHR 0xA9 \<or> c = CHR 0xAF))
      \<or> (a = CHR 0xE2 \<and> b = CHR 0x81 \<and> c = CHR 0x9F)
      \<or> (a = CHR 0xE3 \<and> b = CHR 0x80 \<and> c = CHR 0x80)
      \<or> (a = CHR 0xEF \<and> b = CHR 0xBB \<and> c = CHR 0xBF))"

fun trimStart :: "string \<Rightarrow> string" where
  "trimStart (a # b # c # s) =
     (if is_white_space_1 a then trimStart (b # c # s)
      else if is_white_space_2 a b then trimStart (c # s)
      else if is_white_space_3 a b c then trimStart s
      else a # b # c # s)"
| "trimStart [a, b] =
     (if is_white_space_1 a then trimStart [b]
      else if is_white_space_2 a b then []
      else [a, b])"
| "trimStart [a] = (if is_white_space_1 a then [] else [a])"
| "trimStart [] = []"

fun trimEnd_rev :: "string \<Rightarrow> string" where
  "trimEnd_rev (c # b # a # s) =
     (if is_white_space_1 c then trimEnd_rev (b # a # s)
      else if is_white_space_2 b c then trimEnd_rev (a # s)
      else if is_white_space_3 a b c then trimEnd_rev s
      else c # b # a # s)"
| "trimEnd_rev [c, b] =
     (if is_white_space_1 c then trimEnd_rev [b]
      else if is_white_space_2 b c then []
      else [c, b])"
| "trimEnd_rev [c] = (if is_white_space_1 c then [] else [c])"
| "trimEnd_rev [] = []"

definition trim :: "string \<Rightarrow> string" where
  "trim s = rev (trimEnd_rev (rev (trimStart s)))"

definition digit_char :: "nat \<Rightarrow> char" where
  "digit_char d = char_of (48 + d)"

fun string_of_nat :: "nat \<Rightarrow> string" where
  "string_of_nat n =
     (if n < 10 then [digit_char n]
      else string_of_nat (n div 10) @ [digit_char (n mod 10)])"

declare string_of_nat.simps [simp del]

section \<open>Model Catalog: provider and display name\<close>

text \<open>
  \<open>getProvider\<close> and \<open>getDisplayName\<close> of the source.  \<open>modelId.split('/')[0]\<close>
  reads the first segment; \<open>split\<close> never returns an empty array, the empty case of
  the \<open>case\<close> below is the \<open>undefined || modelId\<close> the source would compute.
\<close>

definition first_or :: "string list \<Rightarrow> string \<Rightarrow> string" where
  "first_or parts dflt = (case parts of [] \<Rightarrow> dflt | p # _ \<Rightarrow> or_else p dflt)"

definition getProvider :: "string \<Rightarrow> string" where
  "getProvider modelId =
     (let base = first_or (split_on CHR ''/'' modelId) modelId in
      if startsWith ''gpt-'' base then ''openai''
      else if startsWith ''claude-'' base then ''anthropic''
      else first_or (split_on CHR '':'' base) base)"

definition getDisplayName :: "string \<Rightarrow> string" where
  "getDisplayName modelId =
     (let parts = split_on CHR ''/'' modelId in
      if length parts > 1 then or_else (last parts) modelId
      else modelId)"

section \<open>JSON values and the payload of a stream line\<close>

text \<open>
  \<open>JSON.parse\<close> belongs to the platform, not to the repository.  It is modelled by a
  recursive-descent parser for the JSON grammar: white space, literals, numbers,
  strings with their escapes, arrays, objects.  An escape \<open>\uXXXX\<close> names a code unit;
  a high surrogate followed by the escape of a low surrogate is one character outside
  the basic plane, and every character is written to the result in UTF-8 (\<open>utf8\<close>).
  A number keeps its lexeme; \<open>number_value\<close> below gives the Number it denotes.  The
  parser runs on fuel (the nesting and the length of the text are bounded by the
  length of the text), and \<open>None\<close> is the \<open>SyntaxError\<close> of \<open>JSON.parse\<close>.
\<close>

datatype json =
    JNull
  | JBool bool
  | JNumber string
  | JString string
  | JArray "json list"
  | JObject "(string \<times> json) list"

definition is_json_ws :: "char \<Rightarrow> bool" where
  "is_json_ws c = (c = CHR 0x20 \<or> c = CHR 0x09 \<or> c = CHR 0x0A \<or> c = CHR 0x0D)"

definition skip_ws :: "string \<Rightarrow> string" where
  "skip_ws cs = dropWhile is_json_ws cs"

definition is_digit :: "char \<Rightarrow> bool" where
  "is_digit c = (48 \<le> (of_char c :: nat) \<and> (of_char c :: nat) \<le> 57)"

definition hex_value :: "char \<Rightarrow> nat option" where
  "hex_value c =
     (let k = (of_char c :: nat) in
      if 48 \<le> k \<and> k \<le> 57 then Some (k - 48)
      else if 97 \<le> k \<and> k \<le> 102 then Some (k - 87)
      else if 65 \<le> k \<and> k \<le> 70 then Some (k - 55)
      else None)"

definition unescape :: "char \<Rightarrow> char option" where
  "unescape e =
     (if e = CHR 0x22 then Some (CHR 0x22)
      else if e = CHR 0x5C then Some (CHR 0x5C)
      else if e = CHR ''/'' then Some (CHR ''/'')
      else if e = CHR ''b'' then Some (CHR 0x08)
      else if e = CHR ''f'' then Some (CHR 0x0C)
      else if e = CHR ''n'' then Some (CHR 0x0A)
      else if e = CHR ''r'' then Some (CHR 0x0D)
      else if e = CHR ''t'' then Some (CHR 0x09)
      else None)"

definition utf8 :: "int \<Rightarrow> string" where
  "utf8 u =
     (if u < 0x80 then [char_of u]
      else if u < 0x800 then [char_of (0xC0 + u div 0x40), char_of (0x80 + u mod 0x40)]
      else if u < 0x10000 then
        [char_of (0xE0 + u div 0x1000), char_of (0x80 + u div 0x40 mod 0x40),
         char_of (0x80 + u mod 0x40)]
      else
        [char_of (0xF0 + u div 0x40000), char_of (0x80 + u div 0x1000 mod 0x40),
         char_of (0x80 + u div 0x40 mod 0x40), char_of (0x80 + u mod 0x40)])"

text \<open>The four hexadecimal digits after \<open>\u\<close>.\<close>

definition unicode_escape :: "string \<Rightarrow> (int \<times> string) option" where
  "unicode_escape cs =
     (case cs of
        a # b # c # d # rest \<Rightarrow>
          (case (hex_value a, hex_value b, hex_value c, hex_value d) of
             (Some h3, Some h2, Some h1, Some h0) \<Rightarrow>
               Some (0x1000 * int h3 + 0x100 * int h2 + 0x10 * int h1 + int h0, rest)
           | _ \<Rightarrow> None)
      | _ \<Rightarrow> None)"

text \<open>
  The character that starts with the escape whose digits are at the head of \<open>cs\<close>: the
  code unit itself, or the character of a surrogate pair when the code unit is a high
  surrogate and the escape of a low surrogate follows.
\<close>

definition escaped_character :: "string \<Rightarrow> (int \<times> string) option" where
  "escaped_character cs =
     (case unicode_escape cs of
        None \<Rightarrow> None
      | Some (u, r) \<Rightarrow>
          (if 0xD800 \<le> u \<and> u < 0xDC00 then
             (case r of
                b # c # r' \<Rightarrow>
                  (if b = CHR 0x5C \<and> c = CHR ''u'' then
                     (case unicode_escape r' of
                        None \<Rightarrow> Some (u, r)
                      | Some (l, r'') \<Rightarrow>
                          (if 0xDC00 \<le> l \<and> l < 0xE000
                           then Some (0x10000 + (u - 0xD800) * 0x400 + (l - 0xDC00), r'')
                           else Some (u, r)))
                   else Some (u, r))
              | _ \<Rightarrow> Some (u, r))
           else Some (u, r)))"

text \<open>\<open>parse_chars\<close> reads a string literal after its opening quote, up to the closing one.\<close>

fun parse_chars :: "nat \<Rightarrow> string \<Rightarrow> (string \<times> string) option" where
  "parse_chars 0 cs = None"
| "parse_chars (Suc n) [] = None"
| "parse_chars (Suc n) (c # cs) =
     (if c = CHR 0x22 then Some ([], cs)
      else if c = CHR 0x5C then
        (case cs of
           [] \<Rightarrow> None
         | e # cs' \<Rightarrow>
             (if e = CHR ''u'' then
                (case escaped_character cs' of
                   None \<Rightarrow> None
                 | Some (u, cs'') \<Rightarrow>
                     (case parse_chars n cs'' of
                        None \<Rightarrow> None
                      | Some (s, r) \<Rightarrow> Some (utf8 u @ s, r)))
              else
                (case unescape e of
                   None \<Rightarrow> None
                 | Some ch \<Rightarrow>
                     (case parse_chars n cs' of
                        None \<Rightarrow> None
                      | Some (s, r) \<Rightarrow> Some (ch # s, r)))))
      else if (of_char c :: nat) < 32 then None
      else (case parse_chars n cs of
              None \<Rightarrow> None
            | Some (s, r) \<Rightarrow> Some (c # s, r)))"

definition take_digits :: "string \<Rightarrow> string \<times> string" where
  "take_digits cs = (takeWhile is_digit cs, dropWhile is_digit cs)"

text \<open>
  A number: an optional minus, an integer part without a leading zero, an optional
  fraction, an optional exponent.
\<close>

definition parse_number :: "string \<Rightarrow> (string \<times> string) option" where
  "parse_number cs =
     (let (sign, r0) = (case cs of c # r \<Rightarrow> if c = CHR ''-'' then ([c], r) else ([], cs)
                        | [] \<Rightarrow> ([], cs));
          (ip, r1) = take_digits r0
      in if ip = [] \<or> (length ip > 1 \<and> hd ip = CHR ''0'') then None
         else
           (case (case r1 of
                    c # r \<Rightarrow>
                      (if c = CHR ''.'' then
                         (let (fp, r2) = take_digits r in
                          if fp = [] then None else Some (c # fp, r2))
                       else Some ([], r1))
                  | [] \<Rightarrow> Some ([], r1)) of
              None \<Rightarrow> None
            | Some (frac, r2) \<Rightarrow>
                (case (case r2 of
                         c # r \<Rightarrow>
                           (if c = CHR ''e'' \<or> c = CHR ''E'' then
                              (let (es, r3) = (case r of
                                                 d # r' \<Rightarrow>
                                                   if d = CHR ''+'' \<or> d = CHR ''-''
                                                   then ([d], r') else ([], r)
                                               | [] \<Rightarrow> ([], r));
                                   (ep, r4) = take_digits r3
                               in if ep = [] then None else Some (c # es @ ep, r4))
                            else Some ([], r2))
                       | [] \<Rightarrow> Some ([], r2)) of
                   None \<Rightarrow> None
                 | Some (ex, r5) \<Rightarrow> Some (sign @ ip @ frac @ ex, r5))))"

fun parse_value :: "nat \<Rightarrow> string \<Rightarrow> (json \<times> string) option"
  and parse_elements :: "nat \<Rightarrow> string \<Rightarrow> (json list \<times> string) option"
  and parse_members :: "nat \<Rightarrow> string \<Rightarrow> ((string \<times> json) list \<times> string) option"
where
  "parse_value 0 cs = None"
| "parse_value (Suc n) cs =
     (case skip_ws cs of
        [] \<Rightarrow> None
      | c # r \<Rightarrow>
          (if c = CHR ''{'' then
             (case skip_ws r of
                [] \<Rightarrow> None
              | d # r' \<Rightarrow>
                  (if d = CHR ''}'' then Some (JObject [], r')
                   else (case parse_members n r of
                           None \<Rightarrow> None
                         | Some (kvs, r'') \<Rightarrow> Some (JObject kvs, r''))))
           else if c = CHR ''['' then
             (case skip_ws r of
                [] \<Rightarrow> None
              | d # r' \<Rightarrow>
                  (if d = CHR '']'' then Some (JArray [], r')
                   else (case parse_elements n r of
                           None \<Rightarrow> None
                         | Some (vs, r'') \<Rightarrow> Some (JArray vs, r''))))
           else if c = CHR 0x22 then
             (case parse_chars (length r) r of
                None \<Rightarrow> None
              | Some (s, r') \<Rightarrow> Some (JString s, r'))
           else if startsWith ''true'' (c # r) then Some (JBool True, drop 4 (c # r))
           else if startsWith ''false'' (c # r) then Some (JBool False, drop 5 (c # r))
           else if startsWith ''null'' (c # r) then Some (JNull, drop 4 (c # r))
           else (case parse_number (c # r) of
                   None \<Rightarrow> None
                 | Some (lexeme, r') \<Rightarrow> Some (JNumber lexeme, r'))))"
| "parse_elements 0 cs = None"
| "parse_elements (Suc n) cs =
     (case parse_value n cs of
        None \<Rightarrow> None
      | Some (v, r) \<Rightarrow>
          (case skip_ws r of
             [] \<Rightarrow> None
           | c # r' \<Rightarrow>
               (if c = CHR '','' then
                  (case parse_elements n r' of
                     None \<Rightarrow> None
                   | Some (vs, r'') \<Rightarrow> Some (v # vs, r''))
                else if c = CHR '']'' then Some ([v], r')
                else None)))"
| "parse_members 0 cs = None"
| "parse_members (Suc n) cs =
     (case skip_ws cs of
        [] \<Rightarrow> None
      | q # r \<Rightarrow>
          (if q \<noteq> CHR 0x22 then None
           else
             (case parse_chars (length r) r of
                None \<Rightarrow> None
              | Some (k, r1) \<Rightarrow>
                  (case skip_ws r1 of
                     [] \<Rightarrow> None
                   | c # r2 \<Rightarrow>
                       (if c \<noteq> CHR '':'' then None
                        else
                          (case parse_value n r2 of
                             None \<Rightarrow> None
                           | Some (v, r3) \<Rightarrow>
                               (case skip_ws r3 of
                                  [] \<Rightarrow> None
                                | d # r4 \<Rightarrow>
                                    (if d = CHR '','' then
                                       (case parse_members n r4 of
                                          None \<Rightarrow> None
                                        | Some (kvs, r5) \<Rightarrow> Some ((k, v) # kvs, r5))
                                     else if d = CHR ''}'' then Some ([(k, v)], r4)
                                     else None))))))))"

definition JSON_parse :: "string \<Rightarrow> json option" where
  "JSON_parse text =
     (case parse_value (Suc (length text)) text of
        None \<Rightarrow> None
      | Some (v, r) \<Rightarrow> if skip_ws r = [] then Some v else None)"

text \<open>
  What \<open>parsed.choices[0]?.delta?.content || ''\<close> reads.  A property read on
  \<open>null\<close> or \<open>undefined\<close> throws a \<open>TypeError\<close> unless it is an optional read
  (\<open>?.\<close>), which yields \<open>undefined\<close>.  \<open>get_member\<close> is a read of a named property:
  only an object has the properties \<open>choices\<close>, \<open>delta\<close> and \<open>content\<close> (the last
  binding of a repeated key wins); \<open>index0\<close> is the read \<open>[0]\<close>, which an array, a
  string and an object with a key \<open>0\<close> answer.  A string answers with its first code
  unit (\<open>first_code_unit\<close>): its first character, or the high surrogate of a first
  character outside the basic plane.  \<open>None\<close> stands for \<open>undefined\<close>.
\<close>

definition first_code_unit :: "string \<Rightarrow> string" where
  "first_code_unit s =
     (case s of
        [] \<Rightarrow> []
      | a # r \<Rightarrow>
          (let k = (of_char a :: int) in
           if k < 0xC0 then [a]
           else if k < 0xE0 then take 2 s
           else if k < 0xF0 then take 3 s
           else
             (case r of
                b # c # d # _ \<Rightarrow>
                  utf8 (0xD800 +
                    ((k - 0xF0) * 0x40000 + (of_char b - 0x80) * 0x1000
                     + (of_char c - 0x80) * 0x40 + (of_char d - 0x80) - 0x10000) div 0x400)
              | _ \<Rightarrow> s)))"

fun lookup_last :: "string \<Rightarrow> (string \<times> json) list \<Rightarrow> json option" where
  "lookup_last k [] = None"
| "lookup_last k ((k', v) # kvs) =
     (case lookup_last k kvs of
        Some w \<Rightarrow> Some w
      | None \<Rightarrow> if k' = k then Some v else None)"

fun get_member :: "string \<Rightarrow> json \<Rightarrow> json option" where
  "get_member k (JObject kvs) = lookup_last k kvs"
| "get_member k v = None"

fun index0 :: "json \<Rightarrow> json option" where
  "index0 (JArray vs) = (case vs of [] \<Rightarrow> None | v # _ \<Rightarrow> Some v)"
| "index0 (JString s) = (if s = [] then None else Some (JString (first_code_unit s)))"
| "index0 (JObject kvs) = lookup_last ''0'' kvs"
| "index0 v = None"

text \<open>An optional read \<open>v?.k\<close>.\<close>

definition optional_member :: "string \<Rightarrow> json option \<Rightarrow> json option" where
  "optional_member k v =
     (case v of
        None \<Rightarrow> None
      | Some x \<Rightarrow> if x = JNull then None else get_member k x)"

text \<open>
  The Number that a lexeme denotes is the double nearest to its decimal value, ties
  going to the even significand: \<open>Zero\<close> (also when the value is too small),
  \<open>Finite f q\<close> for \<open>f * 2 ^ q\<close> with \<open>2 ^ 52 \<le> f < 2 ^ 53\<close> or \<open>q = - 1074\<close>, or
  \<open>Infinity\<close> (when the value is too large); the sign is kept apart.
  \<open>scale b e n\<close> is the fraction \<open>n * b ^ e\<close>, \<open>floor_log\<close> the integer part of the
  logarithm of a fraction, given the function that counts the digits of an integer in
  that base.
\<close>

datatype number = Zero | Finite int int | Infinity

function bit_length :: "int \<Rightarrow> int" where
  "bit_length n = (if n \<le> 0 then 0 else 1 + bit_length (n div 2))"
  by pat_completeness auto
termination
  by (relation "measure nat") auto

function digit_count :: "int \<Rightarrow> int" where
  "digit_count n = (if n \<le> 0 then 0 else 1 + digit_count (n div 10))"
  by pat_completeness auto
termination
  by (relation "measure nat") auto

definition scale :: "int \<Rightarrow> int \<Rightarrow> int \<Rightarrow> int \<times> int" where
  "scale b e n = (if 0 \<le> e then (n * b ^ nat e, 1) else (n, b ^ nat (- e)))"

definition round_half_even :: "int \<Rightarrow> int \<Rightarrow> int" where
  "round_half_even num den =
     (let q = num div den; r = num mod den
      in if 2 * r < den then q
         else if den < 2 * r then q + 1
         else if even q then q else q + 1)"

definition floor_log :: "(int \<Rightarrow> int) \<Rightarrow> int \<Rightarrow> int \<Rightarrow> int \<Rightarrow> int" where
  "floor_log len b num den =
     (let l = len num - len den;
          (n, d) = scale b (- l) num
      in if den * d \<le> n then l else l - 1)"

text \<open>\<open>to_double m e\<close> is the Number for the value \<open>m * 10 ^ e\<close>.\<close>

definition to_double :: "int \<Rightarrow> int \<Rightarrow> number" where
  "to_double m e =
     (if m \<le> 0 then Zero
      else
        (let (num, den) = scale 10 e m;
             q = max (floor_log bit_length 2 num den - 52) (- 1074);
             (n, d) = scale 2 (- q) num;
             f = round_half_even n (den * d)
         in if f = 0 then Zero
            else if f = 2 ^ 53 then (if 971 < q + 1 then Infinity else Finite (2 ^ 52) (q + 1))
            else if 971 < q then Infinity
            else Finite f q))"

definition digits_int :: "string \<Rightarrow> int" where
  "digits_int cs = foldl (\<lambda>a c. 10 * a + (int (of_char c) - 48)) 0 cs"

text \<open>
  The parts of a lexeme that \<open>parse_number\<close> accepted: whether it has a minus, the
  digits of the integer part and of the fraction read as one integer, and the exponent
  less the length of the fraction.
\<close>

definition lexeme_parts :: "string \<Rightarrow> bool \<times> int \<times> int" where
  "lexeme_parts lexeme =
     (let neg = (lexeme \<noteq> [] \<and> hd lexeme = CHR ''-'');
          r0 = (if neg then tl lexeme else lexeme);
          ip = takeWhile is_digit r0;
          r1 = dropWhile is_digit r0;
          fp = (case r1 of c # r \<Rightarrow> if c = CHR ''.'' then takeWhile is_digit r else []
                | [] \<Rightarrow> []);
          r2 = (case r1 of c # r \<Rightarrow> if c = CHR ''.'' then dropWhile is_digit r else r1
                | [] \<Rightarrow> []);
          ex = (case r2 of
                  c # d # r \<Rightarrow>
                    (if d = CHR ''-'' then - digits_int r
                     else if d = CHR ''+'' then digits_int r
                     else digits_int (d # r))
                | _ \<Rightarrow> 0)
      in (neg, digits_int (ip @ fp), ex - int (length fp)))"

definition number_value :: "string \<Rightarrow> bool \<times> number" where
  "number_value lexeme = (let (neg, m, e) = lexeme_parts lexeme in (neg, to_double m e))"

definition number_is_zero :: "string \<Rightarrow> bool" where
  "number_is_zero lexeme = (snd (number_value lexeme) = Zero)"

text \<open>
  \<open>Number::toString\<close>: the shortest decimal digits that denote the same Number, and of
  those the nearest to it.  \<open>nearest num den ge\<close> are the two multiples of \<open>10 ^ ge\<close>
  around the fraction \<open>num / den\<close>, the nearer first.  \<open>shortest f q\<close> tries them with
  one digit, then two, up to sixteen, and takes the first that denotes \<open>Finite f q\<close>;
  when there is none it takes the nearest value of seventeen digits, which denotes
  the Number since seventeen digits tell any two doubles apart.  It gives the digits as
  an integer \<open>s\<close> and the exponent \<open>e\<close>, for the value \<open>s * 10 ^ e\<close>.  The digits are
  then laid out as the language prescribes: as an integer or a decimal fraction when
  the decimal point falls within 21 digits after or 6 zeros before the first digit,
  with an exponent otherwise.
\<close>

definition nearest :: "int \<Rightarrow> int \<Rightarrow> int \<Rightarrow> (int \<times> int) list" where
  "nearest num den ge =
     (let (n, d) = scale 10 (- ge) num;
          lo = n div (den * d);
          r = n mod (den * d)
      in if 2 * r < den * d \<or> (2 * r = den * d \<and> even lo) then [(lo, ge), (lo + 1, ge)]
         else [(lo + 1, ge), (lo, ge)])"

fun shortest_from :: "nat \<Rightarrow> int \<Rightarrow> int \<Rightarrow> int \<Rightarrow> int \<Rightarrow> int \<Rightarrow> int \<times> int" where
  "shortest_from 0 f q num den ge = hd (nearest num den ge)"
| "shortest_from (Suc fuel) f q num den ge =
     (case find (\<lambda>(s, e). to_double s e = Finite f q) (nearest num den ge) of
        Some c \<Rightarrow> c
      | None \<Rightarrow> shortest_from fuel f q num den (ge - 1))"

definition shortest :: "int \<Rightarrow> int \<Rightarrow> int \<times> int" where
  "shortest f q =
     (let (num, den) = scale 2 q f
      in shortest_from 16 f q num den (floor_log digit_count 10 num den))"

definition exponent_part :: "int \<Rightarrow> string" where
  "exponent_part e = (if e < 0 then ''e-'' else ''e+'') @ string_of_nat (nat \<bar>e\<bar>)"

definition Number_toString :: "bool \<times> number \<Rightarrow> string" where
  "Number_toString x =
     (case snd x of
        Zero \<Rightarrow> ''0''
      | Infinity \<Rightarrow> (if fst x then ''-Infinity'' else ''Infinity'')
      | Finite f q \<Rightarrow>
          (let (s, ge) = shortest f q;
               all = string_of_nat (nat s);
               n = ge + int (length all);
               ds = rev (dropWhile (\<lambda>c. c = CHR ''0'') (rev all));
               k = int (length ds)
           in (if fst x then ''-'' else [])
              @ (if k \<le> n \<and> n \<le> 21 then ds @ replicate (nat (n - k)) (CHR ''0'')
                 else if 0 < n \<and> n \<le> 21 then take (nat n) ds @ ''.'' @ drop (nat n) ds
                 else if - 6 < n \<and> n \<le> 0 then ''0.'' @ replicate (nat (- n)) (CHR ''0'') @ ds
                 else if k = 1 then ds @ exponent_part (n - 1)
                 else take 1 ds @ ''.'' @ drop 1 ds @ exponent_part (n - 1))))"

text \<open>A number is falsy when it is zero.\<close>

fun js_truthy :: "json \<Rightarrow> bool" where
  "js_truthy JNull = False"
| "js_truthy (JBool b) = b"
| "js_truthy (JNumber lexeme) = (\<not> number_is_zero lexeme)"
| "js_truthy (JString s) = (s \<noteq> [])"
| "js_truthy (JArray vs) = True"
| "js_truthy (JObject kvs) = True"

text \<open>
  \<open>js_to_string\<close> is the string that \<open>m.content += delta\<close> appends for a \<open>delta\<close> that
  is not a string already: \<open>true\<close>, the elements of an array joined by commas (\<open>null\<close>
  as the empty string), \<open>[object Object]\<close> for an object; an object with a key
  \<open>toString\<close> of its own has no callable conversion and the concatenation throws
  (\<open>None\<close>).  A number is rendered by \<open>Number::toString\<close>.
\<close>

fun js_to_string :: "json \<Rightarrow> string option"
  and js_join :: "json list \<Rightarrow> string option"
where
  "js_to_string JNull = Some ''null''"
| "js_to_string (JBool b) = Some (if b then ''true'' else ''false'')"
| "js_to_string (JNumber lexeme) = Some (Number_toString (number_value lexeme))"
| "js_to_string (JString s) = Some s"
| "js_to_string (JArray vs) = js_join vs"
| "js_to_string (JObject kvs) =
     (if lookup_last ''toString'' kvs = None then Some ''[object Object]'' else None)"
| "js_join [] = Some []"
| "js_join (v # vs) =
     (case (if v = JNull then Some [] else js_to_string v) of
        None \<Rightarrow> None
      | Some a \<Rightarrow>
          (if vs = [] then Some a
           else (case js_join vs of
                   None \<Rightarrow> None
                 | Some b \<Rightarrow> Some (a @ '','' @ b))))"

text \<open>
  \<open>delta_of\<close> is the body of the inner \<open>try\<close> up to the test \<open>if (delta)\<close>: \<open>Inl ()\<close>
  when an exception is thrown (it is caught and ignored), \<open>Inr None\<close> when \<open>delta\<close>
  is falsy, \<open>Inr (Some v)\<close> with the truthy value otherwise.
\<close>

definition delta_of :: "string \<Rightarrow> unit + json option" where
  "delta_of data =
     (case JSON_parse data of
        None \<Rightarrow> Inl ()
      | Some parsed \<Rightarrow>
          (if parsed = JNull then Inl ()
           else
             (case get_member ''choices'' parsed of
                None \<Rightarrow> Inl ()
              | Some choices \<Rightarrow>
                  (if choices = JNull then Inl ()
                   else
                     (case optional_member ''content''
                             (optional_member ''delta'' (index0 choices)) of
                        None \<Rightarrow> Inr None
                      | Some c \<Rightarrow> if js_truthy c then Inr (Some c) else Inr None)))))"

section \<open>Data model\<close>

text \<open>
  \<open>ChatMessage\<close> is the interface of the source; an optional field is an \<open>option\<close>.
  The field \<open>id\<close> is called \<open>id'\<close> here.  An array of model identifiers that can be
  reached both from the selection and from a message (\<open>targetModels\<close>) lives in a
  store, \<open>arrays\<close>, and is named by a reference, so that sharing and copying differ
  in the model as they do in the program.
\<close>

datatype role = User | Assistant

type_synonym ref = nat

record ChatMessage =
  id' :: string
  role :: role
  content :: string
  model :: "string option"
  targetModels :: "ref option"
  loading :: "bool option"
  error :: "string option"

record app_state =
  prompt :: string
  modelPrompts :: "string \<rightharpoonup> string"
  availableModels :: "string list"
  selectedModels :: ref
  messages :: "ChatMessage list"
  isModelLoading :: "string \<rightharpoonup> bool"
  arrays :: "ref \<Rightarrow> string list"
  next_ref :: ref

text \<open>The request body of one exchange: \<open>{ model, messages, stream: true }\<close>.\<close>

record request =
  req_model :: "string option"
  req_messages :: "(role \<times> string) list"
  req_stream :: bool

definition new_array :: "string list \<Rightarrow> app_state \<Rightarrow> ref \<times> app_state" where
  "new_array xs s =
     (next_ref s, s\<lparr>arrays := (arrays s)(next_ref s := xs), next_ref := Suc (next_ref s)\<rparr>)"

text \<open>A string that may be absent is truthy when it is present and not empty.\<close>

definition truthy :: "string option \<Rightarrow> bool" where
  "truthy v = (case v of None \<Rightarrow> False | Some x \<Rightarrow> x \<noteq> [])"

definition array_includes :: "string list \<Rightarrow> string option \<Rightarrow> bool" where
  "array_includes xs v = (case v of None \<Rightarrow> False | Some x \<Rightarrow> x \<in> set xs)"

section \<open>Conversation Store: projections\<close>

text \<open>
  The filter of \<open>getHistoryForModelDisplay\<close>, and the filter inside \<open>sendPrompt\<close>
  that builds the history of a request, each as the source writes it.
\<close>

definition display_filter :: "(ref \<Rightarrow> string list) \<Rightarrow> string \<Rightarrow> ChatMessage \<Rightarrow> bool" where
  "display_filter arrs modelId msg =
     (if role msg = Assistant then model msg = Some modelId
      else if role msg = User then
        (if truthy (model msg) then model msg = Some modelId
         else (case targetModels msg of
                 Some a \<Rightarrow> array_includes (arrs a) (Some modelId)
               | None \<Rightarrow> True))
      else False)"

definition getHistoryForModelDisplay :: "string \<Rightarrow> app_state \<Rightarrow> ChatMessage list" where
  "getHistoryForModelDisplay modelId s =
     filter (display_filter (arrays s) modelId) (messages s)"

definition history_filter :: "(ref \<Rightarrow> string list) \<Rightarrow> ChatMessage \<Rightarrow> ChatMessage \<Rightarrow> bool" where
  "history_filter arrs msg m =
     (if id' m = id' msg then False
      else if role m = Assistant then model m = model msg
      else if role m = User then
        (if truthy (model m) then model m = model msg
         else (case targetModels m of
                 Some a \<Rightarrow> array_includes (arrs a) (model msg)
               | None \<Rightarrow> True))
      else False)"

definition history_turns :: "ChatMessage \<Rightarrow> app_state \<Rightarrow> ChatMessage list" where
  "history_turns msg s = filter (history_filter (arrays s) msg) (messages s)"

definition history :: "ChatMessage \<Rightarrow> app_state \<Rightarrow> (role \<times> string) list" where
  "history msg s = map (\<lambda>m. (role m, content m)) (history_turns msg s)"

definition request_of :: "ChatMessage \<Rightarrow> app_state \<Rightarrow> request" where
  "request_of msg s = \<lparr>req_model = model msg, req_messages = history msg s, req_stream = True\<rparr>"

section \<open>Selection\<close>

definition toggleModel :: "string \<Rightarrow> app_state \<Rightarrow> app_state" where
  "toggleModel modelId s =
     (let current = arrays s (selectedModels s);
          (r, s') = new_array (if modelId \<in> set current
                              then filter (\<lambda>m. m \<noteq> modelId) current
                              else current @ [modelId]) s
      in s'\<lparr>selectedModels := r\<rparr>)"

text \<open>
  \<open>fetchModels\<close> after a successful response that lists \<open>ids\<close>: the catalog is
  replaced, and an empty selection becomes all the models returned.
\<close>

definition fetchModels :: "string list \<Rightarrow> app_state \<Rightarrow> app_state" where
  "fetchModels ids s =
     (let s1 = s\<lparr>availableModels := ids\<rparr> in
      if arrays s1 (selectedModels s1) = [] then
        (let (r, s2) = new_array (availableModels s1) s1 in s2\<lparr>selectedModels := r\<rparr>)
      else s1)"

section \<open>Fan-Out Dispatcher\<close>

text \<open>
  \<open>sendPrompt\<close> is called with no argument, with the event of the global form, or
  with the identifier of the panel it was submitted from.  \<open>Date.now()\<close> is read once
  for the user message (\<open>tu\<close>) and once for each placeholder (\<open>ta idx\<close> for the one of
  index \<open>idx\<close>); the readings are inputs of the model.  \<open>resolvedTargetId_of\<close>,
  \<open>isGlobalFixed_of\<close>, \<open>currentPrompt_of\<close> and \<open>activeModels_of\<close> are the constants
  of those names in the source; \<open>key_of\<close> is \<open>resolvedTargetId\<close> where the source uses
  it as a key or an element, which it does only when it is a non-empty string.

  The function below is the synchronous part of \<open>sendPrompt\<close>: everything up to the
  first \<open>await\<close> of each callback of \<open>assistantMessages.forEach\<close>.  It returns the new
  state and, for each placeholder in order, the request that its callback hands to
  \<open>fetch\<close>.  What happens after the \<open>await\<close>s is the Stream Consumer below.
\<close>

datatype send_arg = NoArgument | EventArgument | ModelArgument string

definition userMessage_of ::
  "nat \<Rightarrow> string \<Rightarrow> string option \<Rightarrow> ref option \<Rightarrow> ChatMessage" where
  "userMessage_of tu currentPrompt resolvedTargetId tm =
     \<lparr>id' = string_of_nat tu, role = User, content = currentPrompt,
      model = resolvedTargetId, targetModels = tm, loading = None, error = None\<rparr>"

definition placeholder :: "nat \<Rightarrow> nat \<Rightarrow> string \<Rightarrow> ChatMessage" where
  "placeholder t idx m =
     \<lparr>id' = string_of_nat t @ ''-'' @ string_of_nat idx, role = Assistant, content = [],
      model = Some m, targetModels = None, loading = Some True, error = None\<rparr>"

definition assistantMessages_of :: "(nat \<Rightarrow> nat) \<Rightarrow> string list \<Rightarrow> ChatMessage list" where
  "assistantMessages_of ta activeModels =
     map (\<lambda>(idx, m). placeholder (ta idx) idx m) (enumerate 0 activeModels)"

definition mark_loading :: "string list \<Rightarrow> (string \<rightharpoonup> bool) \<Rightarrow> (string \<rightharpoonup> bool)" where
  "mark_loading activeModels flags =
     foldl (\<lambda>f m. if m \<noteq> [] then f(m \<mapsto> True) else f) flags activeModels"

definition resolvedTargetId_of :: "send_arg \<Rightarrow> string option" where
  "resolvedTargetId_of targetModelId =
     (case targetModelId of ModelArgument x \<Rightarrow> Some x | _ \<Rightarrow> None)"

definition isGlobalFixed_of :: "send_arg \<Rightarrow> bool" where
  "isGlobalFixed_of targetModelId = (\<not> truthy (resolvedTargetId_of targetModelId))"

definition key_of :: "send_arg \<Rightarrow> string" where
  "key_of targetModelId =
     (case resolvedTargetId_of targetModelId of Some x \<Rightarrow> x | None \<Rightarrow> [])"

definition currentPrompt_of :: "send_arg \<Rightarrow> app_state \<Rightarrow> string" where
  "currentPrompt_of targetModelId s =
     (if isGlobalFixed_of targetModelId then prompt s
      else (case modelPrompts s (key_of targetModelId) of None \<Rightarrow> [] | Some p \<Rightarrow> p))"

definition activeModels_of :: "send_arg \<Rightarrow> app_state \<Rightarrow> string list" where
  "activeModels_of targetModelId s =
     (if isGlobalFixed_of targetModelId then arrays s (selectedModels s)
      else [key_of targetModelId])"

definition sendPrompt ::
  "nat \<Rightarrow> (nat \<Rightarrow> nat) \<Rightarrow> send_arg \<Rightarrow> app_state \<Rightarrow> app_state \<times> (ChatMessage \<times> request) list"
where
  "sendPrompt tu ta targetModelId s =
     (let resolvedTargetId = resolvedTargetId_of targetModelId;
          isGlobalFixed = isGlobalFixed_of targetModelId;
          currentPrompt = currentPrompt_of targetModelId s
      in if trim currentPrompt = [] then (s, [])
         else
           (let activeModels = activeModels_of targetModelId s
            in if activeModels = [] then (s, [])
               else
                 (let (tm, s1) = (if isGlobalFixed
                                  then (let (r, s') = new_array (arrays s (selectedModels s)) s
                                        in (Some r, s'))
                                  else (None, s));
                      userMessage = userMessage_of tu currentPrompt resolvedTargetId tm;
                      s2 = s1\<lparr>messages := messages s1 @ [userMessage]\<rparr>;
                      s3 = (if isGlobalFixed then s2\<lparr>prompt := []\<rparr>
                            else s2\<lparr>modelPrompts :=
                                      (modelPrompts s2)(key_of targetModelId \<mapsto> [])\<rparr>);
                      s4 = s3\<lparr>isModelLoading := mark_loading activeModels (isModelLoading s3)\<rparr>;
                      assistantMessages = assistantMessages_of ta activeModels;
                      s5 = s4\<lparr>messages := messages s4 @ assistantMessages\<rparr>
                  in (s5, map (\<lambda>msg. (msg, request_of msg s5)) assistantMessages))))"

section \<open>Stream Consumer\<close>

text \<open>
  \<open>findIndex\<close> and the update of the message found, as the source does it in three
  places: \<open>messages.value.findIndex(m => m.id === msg.id)\<close>, then a write to the
  message at that index when the index is not \<open>-1\<close>.
\<close>

fun findIndex :: "('a \<Rightarrow> bool) \<Rightarrow> 'a list \<Rightarrow> nat option" where
  "findIndex p [] = None"
| "findIndex p (x # xs) = (if p x then Some 0 else map_option Suc (findIndex p xs))"

definition update_message ::
  "string \<Rightarrow> (ChatMessage \<Rightarrow> ChatMessage) \<Rightarrow> ChatMessage list \<Rightarrow> ChatMessage list" where
  "update_message mid f msgs =
     (case findIndex (\<lambda>m. id' m = mid) msgs of
        None \<Rightarrow> msgs
      | Some i \<Rightarrow> msgs[i := f (msgs ! i)])"

text \<open>
  One line that starts with \<open>data: \<close> and is not the sentinel: the inner \<open>try\<close>.  A
  parse error, a \<open>TypeError\<close> of a property read or of the concatenation are caught
  and ignored.
\<close>

definition on_data :: "ChatMessage \<Rightarrow> string \<Rightarrow> ChatMessage list \<Rightarrow> ChatMessage list" where
  "on_data msg data msgs =
     (case delta_of data of
        Inl _ \<Rightarrow> msgs
      | Inr None \<Rightarrow> msgs
      | Inr (Some delta) \<Rightarrow>
          (case js_to_string delta of
             None \<Rightarrow> msgs
           | Some text \<Rightarrow>
               update_message (id' msg)
                 (\<lambda>m. m\<lparr>content := content m @ text, loading := Some False\<rparr>) msgs))"

text \<open>The loop \<open>for (const line of lines)\<close>, with its \<open>break\<close> at the sentinel.\<close>

fun process_lines :: "ChatMessage \<Rightarrow> string list \<Rightarrow> ChatMessage list \<Rightarrow> ChatMessage list" where
  "process_lines msg [] msgs = msgs"
| "process_lines msg (line # lines) msgs =
     (if startsWith ''data: '' line then
        (let data = drop 6 line in
         if data = ''[DONE]'' then msgs
         else process_lines msg lines (on_data msg data msgs))
      else process_lines msg lines msgs)"

text \<open>One turn of the \<open>while\<close> loop for a read that delivered the text \<open>chunk\<close>.\<close>

definition process_chunk :: "ChatMessage \<Rightarrow> string \<Rightarrow> app_state \<Rightarrow> app_state" where
  "process_chunk msg chunk s =
     s\<lparr>messages := process_lines msg (split_on CHR 0x0A chunk) (messages s)\<rparr>"

definition catch_block :: "ChatMessage \<Rightarrow> string \<Rightarrow> app_state \<Rightarrow> app_state" where
  "catch_block msg message s =
     s\<lparr>messages := update_message (id' msg)
                      (\<lambda>m. m\<lparr>error := Some message, loading := Some False\<rparr>) (messages s)\<rparr>"

definition finally_block :: "ChatMessage \<Rightarrow> app_state \<Rightarrow> app_state" where
  "finally_block msg s =
     (let s1 = s\<lparr>messages := update_message (id' msg) (\<lambda>m. m\<lparr>loading := Some False\<rparr>)
                                (messages s)\<rparr>
      in if truthy (model msg) then
           (case model msg of
              None \<Rightarrow> s1
            | Some k \<Rightarrow>
                s1\<lparr>isModelLoading := (isModelLoading s1)
                      (k \<mapsto> list_ex (\<lambda>m. model m = model msg \<and> loading m = Some True)
                              (messages s1))\<rparr>)
         else s1)"

text \<open>
  What the transport does is an input.  \<open>fetch\<close> either rejects with a message or
  resolves to a response, of which the source reads \<open>ok\<close>, \<open>status\<close> and whether
  \<open>body\<close> gives a reader.  A \<open>read()\<close> delivers a chunk (given here as the text that
  \<open>decoder.decode\<close> returns for it), reports the end of the stream, or rejects.
\<close>

datatype fetch_result = FetchRejected string | FetchResponse bool nat bool

datatype read_result = ReadChunk string | ReadDone | ReadRejected string

datatype phase = Pending | Streaming | Complete | Failed

definition on_fetch :: "ChatMessage \<Rightarrow> fetch_result \<Rightarrow> app_state \<Rightarrow> app_state \<times> phase" where
  "on_fetch msg r s =
     (case r of
        FetchRejected message \<Rightarrow> (finally_block msg (catch_block msg message s), Failed)
      | FetchResponse ok status has_reader \<Rightarrow>
          (if \<not> ok then
             (finally_block msg (catch_block msg (''Status: '' @ string_of_nat status) s), Failed)
           else if \<not> has_reader then
             (finally_block msg (catch_block msg ''No reader available'' s), Failed)
           else (s, Streaming)))"

definition on_read :: "ChatMessage \<Rightarrow> read_result \<Rightarrow> app_state \<Rightarrow> app_state \<times> phase" where
  "on_read msg r s =
     (case r of
        ReadDone \<Rightarrow> (finally_block msg s, Complete)
      | ReadChunk chunk \<Rightarrow> (process_chunk msg chunk s, Streaming)
      | ReadRejected message \<Rightarrow> (finally_block msg (catch_block msg message s), Failed))"

text \<open>
  An exchange waits for \<open>fetch\<close> while \<open>Pending\<close> and for \<open>read()\<close> while
  \<open>Streaming\<close>; each resumption runs to the next \<open>await\<close> or to the end of the
  callback without interruption.  Once \<open>Complete\<close> or \<open>Failed\<close> it takes no more
  events.
\<close>

datatype event = Fetched fetch_result | Read read_result

fun exchange_step :: "ChatMessage \<Rightarrow> phase \<Rightarrow> event \<Rightarrow> app_state \<Rightarrow> app_state \<times> phase" where
  "exchange_step msg Pending (Fetched r) s = on_fetch msg r s"
| "exchange_step msg Streaming (Read r) s = on_read msg r s"
| "exchange_step msg ph ev s = (s, ph)"

section \<open>The application as a transition system\<close>

text \<open>
  The event loop runs one handler at a time.  A configuration is the state and the
  exchanges launched so far, each with its phase; an action is a user action (typing
  into the global input or into the input of a panel, which the template binds to
  \<open>prompt\<close> and \<open>modelPrompts[modelId]\<close>; submitting; toggling a model), the arrival
  of the model list, or the delivery of a transport event to the exchange of a given
  index.
\<close>

type_synonym config = "app_state \<times> (ChatMessage \<times> phase) list"

datatype action =
    SetPrompt string
  | SetModelPrompt string string
  | Dispatch nat "nat \<Rightarrow> nat" send_arg
  | Toggle string
  | ModelsFetched "string list"
  | Deliver nat event

fun step :: "action \<Rightarrow> config \<Rightarrow> config" where
  "step (SetPrompt text) (s, exs) = (s\<lparr>prompt := text\<rparr>, exs)"
| "step (SetModelPrompt modelId text) (s, exs) =
     (s\<lparr>modelPrompts := (modelPrompts s)(modelId \<mapsto> text)\<rparr>, exs)"
| "step (Dispatch tu ta arg) (s, exs) =
     (let (s', launched) = sendPrompt tu ta arg s
      in (s', exs @ map (\<lambda>(msg, req). (msg, Pending)) launched))"
| "step (Toggle modelId) (s, exs) = (toggleModel modelId s, exs)"
| "step (ModelsFetched ids) (s, exs) = (fetchModels ids s, exs)"
| "step (Deliver k ev) (s, exs) =
     (if k < length exs then
        (let (msg, ph) = exs ! k;
             (s', ph') = exchange_step msg ph ev s
         in (s', exs[k := (msg, ph')]))
      else (s, exs))"

fun run :: "action list \<Rightarrow> config \<Rightarrow> config" where
  "run [] c = c"
| "run (a # as) c = run as (step a c)"

definition init_state :: app_state where
  "init_state =
     \<lparr>prompt = [], modelPrompts = Map.empty, availableModels = [], selectedModels = 0,
      messages = [], isModelLoading = Map.empty, arrays = (\<lambda>_. []), next_ref = 1\<rparr>"

section \<open>Notions used to state the properties\<close>

text \<open>
  The selection rule in the words of the specification: an assistant turn is selected
  for \<open>M\<close> when its model is \<open>M\<close>; a user turn when its model is \<open>M\<close>, or its
  \<open>targetModels\<close> contains \<open>M\<close>, or neither field is set.  It is compared below with the
  filters of the source.
\<close>

definition spec_selects :: "(ref \<Rightarrow> string list) \<Rightarrow> string \<Rightarrow> ChatMessage \<Rightarrow> bool" where
  "spec_selects arrs M t =
     (case role t of
        Assistant \<Rightarrow> model t = Some M
      | User \<Rightarrow>
          model t = Some M
          \<or> (case targetModels t of Some a \<Rightarrow> M \<in> set (arrs a) | None \<Rightarrow> False)
          \<or> (model t = None \<and> targetModels t = None))"

text \<open>
  The invariant of the data model on the scope of a turn: a user turn does not carry
  both a model and a set of target models, and a model that is set is not the empty
  string.  \<open>sendPrompt\<close> creates no other turns unless it is called with the empty
  string as a target (see \<open>reachable_scope_wf\<close> below).
\<close>

definition scope_wf :: "ChatMessage \<Rightarrow> bool" where
  "scope_wf t =
     (case model t of
        None \<Rightarrow> True
      | Some x \<Rightarrow> role t = Assistant \<or> (x \<noteq> [] \<and> targetModels t = None))"

definition named_target :: "action \<Rightarrow> bool" where
  "named_target a =
     (case a of Dispatch _ _ (ModelArgument m) \<Rightarrow> m \<noteq> [] | _ \<Rightarrow> True)"

text \<open>
  Classes of actions: those that only change the selection, and those that are not
  taken by the exchange of index \<open>k\<close> and launch no exchange.
\<close>

definition selection_change :: "action \<Rightarrow> bool" where
  "selection_change a =
     (case a of Toggle _ \<Rightarrow> True | ModelsFetched _ \<Rightarrow> True | _ \<Rightarrow> False)"

definition foreign_to :: "nat \<Rightarrow> action \<Rightarrow> bool" where
  "foreign_to k a =
     (case a of
        Deliver k' ev \<Rightarrow> k' \<noteq> k
      | Dispatch _ _ _ \<Rightarrow> False
      | _ \<Rightarrow> True)"

text \<open>
  The link between an exchange and its turn: the ids of the log and of the exchanges
  are distinct, exchange \<open>k\<close> is the one of \<open>msg\<close> in phase \<open>ph\<close>, and turn \<open>i\<close>
  carries the id of \<open>msg\<close>.
\<close>

definition linked :: "nat \<Rightarrow> nat \<Rightarrow> ChatMessage \<Rightarrow> phase \<Rightarrow> config \<Rightarrow> bool" where
  "linked i k msg ph c =
     (distinct (map id' (messages (fst c))) \<and> i < length (messages (fst c)) \<and>
      distinct (map (id' \<circ> fst) (snd c)) \<and> k < length (snd c) \<and>
      snd c ! k = (msg, ph) \<and> id' (messages (fst c) ! i) = id' msg)"

text \<open>
  The clock reading that an id records: the value of the digits before the first
  \<open>-\<close>.
\<close>

definition digits_value :: "string \<Rightarrow> nat" where
  "digits_value cs = foldl (\<lambda>n c. 10 * n + (of_char c - 48)) 0 cs"

definition id_time :: "string \<Rightarrow> nat" where
  "id_time x = digits_value (takeWhile (\<lambda>c. c \<noteq> CHR ''-'') x)"


section \<open>Scenarios\<close>

text \<open>
  The scenario of the specification: the catalog lists two models, which become the
  selection; the user types \<open>Hi\<close> and submits the global form when the clock reads
  \<open>7\<close>.  \<open>example_user\<close>, \<open>gpt_turn\<close> and \<open>claude_turn\<close> are the three turns this
  creates.
\<close>

definition example_start :: config where
  "example_start =
     run [ModelsFetched [''openai/gpt-4'', ''anthropic/claude-3''], SetPrompt ''Hi'']
       (init_state, [])"

definition example_config :: config where
  "example_config = step (Dispatch 7 (\<lambda>_. 7) NoArgument) example_start"

definition example_user :: ChatMessage where
  "example_user = userMessage_of 7 ''Hi'' None (Some 2)"

definition gpt_turn :: ChatMessage where
  "gpt_turn = placeholder 7 0 ''openai/gpt-4''"

definition claude_turn :: ChatMessage where
  "claude_turn = placeholder 7 1 ''anthropic/claude-3''"

text \<open>The three chunks of the streaming scenario.\<close>

definition hello_chunk_1 :: string where
  \<open>hello_chunk_1 = ''data: {"choices":[{"delta":{"content":"Hel"}}]}\<newline>''\<close>

definition hello_chunk_2 :: string where
  \<open>hello_chunk_2 = ''data: {"choices":[{"delta":{"content":"lo"}}]}\<newline>''\<close>

definition hello_chunk_3 :: string where
  \<open>hello_chunk_3 = ''data: [DONE]\<newline>''\<close>

text \<open>
  A chunk whose first line is the sentinel and whose second line carries a delta, and
  the chunk that the transport delivers after it.
\<close>

definition done_chunk :: string where
  \<open>done_chunk = ''data: [DONE]\<newline>data: {"choices":[{"delta":{"content":"X"}}]}\<newline>''\<close>

definition after_chunk :: string where
  \<open>after_chunk = ''data: {"choices":[{"delta":{"content":"Y"}}]}\<newline>''\<close>

definition done_run :: config where
  "done_run =
     run [Deliver 0 (Fetched (FetchResponse True 200 True)),
          Deliver 0 (Read (ReadChunk done_chunk)),
          Deliver 0 (Read (ReadChunk after_chunk))] example_config"

text \<open>
  Further runs from the scenario: the selection is changed to the single model \<open>c\<close>;
  the request of the second model fails with status 500; the first model receives
  its first delta; the first model fails, and a second prompt is submitted while the
  second model is still loading.
\<close>

definition example_toggles :: "action list" where
  "example_toggles = [Toggle ''openai/gpt-4'', Toggle ''anthropic/claude-3'', Toggle ''c'']"


definition gpt_first_delta :: "action list" where
  "gpt_first_delta =
     [Deliver 0 (Fetched (FetchResponse True 200 True)),
      Deliver 0 (Read (ReadChunk hello_chunk_1))]"

definition claude_fails :: action where
  "claude_fails = Deliver 1 (Fetched (FetchResponse False 500 True))"

definition second_round :: app_state where
  "second_round =
     fst (run [Deliver 0 (Fetched (FetchResponse False 500 True)), SetPrompt ''again'',
               Dispatch 8 (\<lambda>_. 8) NoArgument] example_config)"

text \<open>
  Two panels, \<open>a\<close> and \<open>b\<close>, each with a reply typed into its own input and no
  message yet; and the configuration after both replies are submitted while the clock
  reads \<open>7\<close>.
\<close>

definition collision_start :: config where
  "collision_start =
     run [SetModelPrompt ''a'' ''x'', SetModelPrompt ''b'' ''y''] (init_state, [])"

definition collided :: config where
  "collided =
     run [Dispatch 7 (\<lambda>_. 7) (ModelArgument ''a''),
          Dispatch 7 (\<lambda>_. 7) (ModelArgument ''b'')] collision_start"





text \<open>
  The round of the scenario completes for both models; then the user types a reply
  into the panel of each model and submits both while the clock reads \<open>9\<close>.
  \<open>gpt_reply\<close> and \<open>claude_reply\<close> are the two placeholders; they carry the same id.
  After that the request of the second reply fails with status 500
  (\<open>claude_reply_fails\<close>), or it streams the three chunks and ends
  (\<open>claude_reply_streams\<close>).
\<close>

definition round_done :: config where
  "round_done =
     run [Deliver 0 (Fetched (FetchResponse True 200 True)), Deliver 0 (Read ReadDone),
          Deliver 1 (Fetched (FetchResponse True 200 True)), Deliver 1 (Read ReadDone)]
       example_config"

definition gpt_reply :: ChatMessage where
  "gpt_reply = placeholder 9 0 ''openai/gpt-4''"

definition claude_reply :: ChatMessage where
  "claude_reply = placeholder 9 0 ''anthropic/claude-3''"

definition replies_collide :: config where
  "replies_collide =
     run [SetModelPrompt ''openai/gpt-4'' ''x'', SetModelPrompt ''anthropic/claude-3'' ''y'',
          Dispatch 9 (\<lambda>_. 9) (ModelArgument ''openai/gpt-4''),
          Dispatch 9 (\<lambda>_. 9) (ModelArgument ''anthropic/claude-3'')] round_done"

definition claude_reply_fails :: config where
  "claude_reply_fails =
     step (Deliver 3 (Fetched (FetchResponse False 500 True))) replies_collide"

definition claude_reply_streams :: config where
  "claude_reply_streams =
     run [Deliver 3 (Fetched (FetchResponse True 200 True)),
          Deliver 3 (Read (ReadChunk hello_chunk_1)),
          Deliver 3 (Read (ReadChunk hello_chunk_2)),
          Deliver 3 (Read (ReadChunk hello_chunk_3)),
          Deliver 3 (Read ReadDone)] replies_collide"

section \<open>Lookup and update of a message by id\<close>

lemma findIndex_Some_iff_first:
  "findIndex p xs = Some i \<Longrightarrow> i < length xs \<and> p (xs ! i)"
proof (induction xs arbitrary: i)
  case Nil
  then show ?case by simp
next
  case (Cons x xs)
  show ?case
  proof (cases "p x")
    case True
    with Cons.prems show ?thesis by simp
  next
    case False
    with Cons.prems obtain j where j: "findIndex p xs = Some j" "i = Suc j"
      by auto
    with Cons.IH [of j] show ?thesis by simp
  qed
qed

lemma findIndex_distinct:
  "distinct (map f xs) \<Longrightarrow> i < length xs \<Longrightarrow> findIndex (\<lambda>m. f m = f (xs ! i)) xs = Some i"
proof (induction xs arbitrary: i)
  case Nil
  then show ?case by simp
next
  case (Cons x xs)
  show ?case
  proof (cases i)
    case 0
    then show ?thesis by simp
  next
    case (Suc j)
    with Cons.prems have "j < length xs" and "f x \<noteq> f (xs ! j)"
      by auto
    moreover from Cons.prems have "distinct (map f xs)" by simp
    ultimately show ?thesis using Cons.IH [of j] Suc by simp
  qed
qed

lemma update_message_length [simp]:
  "length (update_message mid f msgs) = length msgs"
  by (simp add: update_message_def split: option.splits)

lemma update_message_other:
  assumes "id' (msgs ! j) \<noteq> mid"
  shows "update_message mid f msgs ! j = msgs ! j"
proof (cases "findIndex (\<lambda>m. id' m = mid) msgs")
  case None
  then show ?thesis by (simp add: update_message_def)
next
  case (Some i)
  from findIndex_Some_iff_first [OF Some] have "id' (msgs ! i) = mid" by simp
  with assms have "i \<noteq> j" by auto
  then show ?thesis by (simp add: update_message_def Some)
qed

lemma update_message_at:
  assumes "distinct (map id' msgs)" and "i < length msgs" and "id' (msgs ! i) = mid"
  shows "update_message mid f msgs = msgs[i := f (msgs ! i)]"
  using findIndex_distinct [OF assms(1,2)] assms(3) by (simp add: update_message_def)

lemma update_message_ids:
  assumes "\<And>m. id' (f m) = id' m"
  shows "map id' (update_message mid f msgs) = map id' msgs"
proof (cases "findIndex (\<lambda>m. id' m = mid) msgs")
  case None
  then show ?thesis by (simp add: update_message_def)
next
  case (Some i)
  from findIndex_Some_iff_first [OF Some] have "i < length msgs" by simp
  then show ?thesis
    by (simp add: update_message_def Some map_update assms list_update_same_conv)
qed

lemma update_message_same: "update_message mid (\<lambda>m. m) msgs = msgs"
  by (simp add: update_message_def split: option.splits)

section \<open>What a dispatch does to the state\<close>

lemma assistantMessages_of_length [simp]:
  "length (assistantMessages_of ta targets) = length targets"
  by (simp add: assistantMessages_of_def)

lemma assistantMessages_of_nth:
  "k < length targets \<Longrightarrow>
     assistantMessages_of ta targets ! k = placeholder (ta k) k (targets ! k)"
  by (simp add: assistantMessages_of_def nth_enumerate_eq)

lemma sendPrompt_rejected:
  "trim (currentPrompt_of arg s) = [] \<or> activeModels_of arg s = [] \<Longrightarrow>
     sendPrompt tu ta arg s = (s, [])"
  by (auto simp: sendPrompt_def Let_def)

lemma sendPrompt_messages:
  assumes "trim (currentPrompt_of arg s) \<noteq> []" and "activeModels_of arg s \<noteq> []"
  shows "messages (fst (sendPrompt tu ta arg s)) =
           messages s @
           userMessage_of tu (currentPrompt_of arg s) (resolvedTargetId_of arg)
             (if isGlobalFixed_of arg then Some (next_ref s) else None)
           # assistantMessages_of ta (activeModels_of arg s)"
  using assms by (simp add: sendPrompt_def Let_def new_array_def)

lemma sendPrompt_launched:
  assumes "trim (currentPrompt_of arg s) \<noteq> []" and "activeModels_of arg s \<noteq> []"
  shows "snd (sendPrompt tu ta arg s) =
           map (\<lambda>msg. (msg, request_of msg (fst (sendPrompt tu ta arg s))))
             (assistantMessages_of ta (activeModels_of arg s))"
  using assms by (simp add: sendPrompt_def Let_def new_array_def split: prod.splits)

lemma sendPrompt_global:
  assumes "isGlobalFixed_of arg" and "trim (prompt s) \<noteq> []"
    and "arrays s (selectedModels s) \<noteq> []"
  shows "fst (sendPrompt tu ta arg s) =
           s\<lparr>prompt := [],
             messages := messages s @
               userMessage_of tu (prompt s) (resolvedTargetId_of arg) (Some (next_ref s))
               # assistantMessages_of ta (arrays s (selectedModels s)),
             isModelLoading := mark_loading (arrays s (selectedModels s)) (isModelLoading s),
             arrays := (arrays s)(next_ref s := arrays s (selectedModels s)),
             next_ref := Suc (next_ref s)\<rparr>"
  using assms
  by (simp add: sendPrompt_def Let_def new_array_def currentPrompt_of_def activeModels_of_def)

lemma sendPrompt_per_model:
  assumes "m \<noteq> []" and "modelPrompts s m = Some p" and "trim p \<noteq> []"
  shows "fst (sendPrompt tu ta (ModelArgument m) s) =
           s\<lparr>modelPrompts := (modelPrompts s)(m \<mapsto> []),
             messages := messages s @
               userMessage_of tu p (Some m) None # assistantMessages_of ta [m],
             isModelLoading := mark_loading [m] (isModelLoading s)\<rparr>"
  using assms
  by (simp add: sendPrompt_def Let_def currentPrompt_of_def activeModels_of_def
      isGlobalFixed_of_def resolvedTargetId_of_def key_of_def truthy_def)

lemma sendPrompt_global_store:
  assumes "isGlobalFixed_of arg" and "trim (currentPrompt_of arg s) \<noteq> []"
    and "activeModels_of arg s \<noteq> []"
  shows "arrays (fst (sendPrompt tu ta arg s)) (next_ref s) = arrays s (selectedModels s) \<and>
         next_ref (fst (sendPrompt tu ta arg s)) = Suc (next_ref s) \<and>
         selectedModels (fst (sendPrompt tu ta arg s)) = selectedModels s"
  using assms by (simp add: sendPrompt_def Let_def new_array_def)

lemma step_Dispatch_fst:
  "fst (step (Dispatch tu ta arg) c) = fst (sendPrompt tu ta arg (fst c))"
  by (cases c) (simp split: prod.splits)

lemma step_Dispatch_snd:
  "snd (step (Dispatch tu ta arg) c) =
     snd c @ map (\<lambda>x. (fst x, Pending)) (snd (sendPrompt tu ta arg (fst c)))"
  by (cases c) (simp add: case_prod_unfold Let_def)

lemma step_Toggle: "step (Toggle m) c = (toggleModel m (fst c), snd c)"
  by (cases c) simp

lemma step_Deliver:
  "k < length (snd c) \<Longrightarrow>
     step (Deliver k ev) c =
       (fst (exchange_step (fst (snd c ! k)) (snd (snd c ! k)) ev (fst c)),
        (snd c)[k := (fst (snd c ! k),
                      snd (exchange_step (fst (snd c ! k)) (snd (snd c ! k)) ev (fst c)))])"
  by (cases c) (simp add: case_prod_unfold Let_def)


lemma step_SetModelPrompt:
  "step (SetModelPrompt m v) c = ((fst c)\<lparr>modelPrompts := (modelPrompts (fst c))(m \<mapsto> v)\<rparr>, snd c)"
  by (cases c) simp


lemma step_Dispatch_per_model:
  assumes "m \<noteq> []" and "modelPrompts (fst c) m = Some p" and "trim p \<noteq> []"
  shows "step (Dispatch tu ta (ModelArgument m)) c =
           ((fst c)\<lparr>modelPrompts := (modelPrompts (fst c))(m \<mapsto> []),
               messages := messages (fst c) @
                 userMessage_of tu p (Some m) None # assistantMessages_of ta [m],
               isModelLoading := mark_loading [m] (isModelLoading (fst c))\<rparr>,
            snd c @ map (\<lambda>m. (m, Pending)) (assistantMessages_of ta [m]))"
proof -
  from assms have g: "\<not> isGlobalFixed_of (ModelArgument m)" "key_of (ModelArgument m) = m"
    by (simp_all add: isGlobalFixed_of_def resolvedTargetId_of_def truthy_def key_of_def)
  with assms have "trim (currentPrompt_of (ModelArgument m) (fst c)) \<noteq> []"
    "activeModels_of (ModelArgument m) (fst c) \<noteq> []"
    by (simp_all add: currentPrompt_of_def activeModels_of_def)
  from sendPrompt_launched [OF this, of tu ta] g
  have "map (\<lambda>x. (fst x, Pending)) (snd (sendPrompt tu ta (ModelArgument m) (fst c))) =
      map (\<lambda>m. (m, Pending)) (assistantMessages_of ta [m])"
    by (simp add: activeModels_of_def comp_def)
  then have "snd (step (Dispatch tu ta (ModelArgument m)) c) =
      snd c @ map (\<lambda>m. (m, Pending)) (assistantMessages_of ta [m])"
    by (simp add: step_Dispatch_snd)
  moreover have "fst (step (Dispatch tu ta (ModelArgument m)) c) =
      fst (sendPrompt tu ta (ModelArgument m) (fst c))"
    by (rule step_Dispatch_fst)
  ultimately show ?thesis
    using sendPrompt_per_model [OF assms, of tu ta] by (simp add: prod_eq_iff)
qed

lemma run_append: "run (xs @ ys) c = run ys (run xs c)"
  by (induction xs arbitrary: c) simp_all

section \<open>What a change of the selection leaves alone\<close>

lemma toggleModel_frame:
  "messages (toggleModel m s) = messages s \<and>
   next_ref s < next_ref (toggleModel m s) \<and>
   selectedModels (toggleModel m s) = next_ref s \<and>
   (\<forall>r<next_ref s. arrays (toggleModel m s) r = arrays s r)"
  by (simp add: toggleModel_def new_array_def Let_def)

lemma fetchModels_frame:
  "messages (fetchModels ids s) = messages s \<and>
   next_ref s \<le> next_ref (fetchModels ids s) \<and>
   (selectedModels (fetchModels ids s) = selectedModels s
    \<or> selectedModels (fetchModels ids s) = next_ref s) \<and>
   (\<forall>r<next_ref s. arrays (fetchModels ids s) r = arrays s r)"
  by (simp add: fetchModels_def new_array_def Let_def)

lemma selection_changes_frame:
  assumes "list_all selection_change acts" and "r < next_ref s" and "selectedModels s \<noteq> r"
  shows "messages (fst (run acts (s, exs))) = messages s \<and>
         arrays (fst (run acts (s, exs))) r = arrays s r \<and>
         selectedModels (fst (run acts (s, exs))) \<noteq> r"
  using assms
proof (induction acts arbitrary: s)
  case Nil
  then show ?case by simp
next
  case (Cons a acts)
  from Cons.prems(1) have rest: "list_all selection_change acts" by simp
  from Cons.prems(1) consider m where "a = Toggle m" | ids where "a = ModelsFetched ids"
    by (cases a) (simp_all add: selection_change_def)
  then show ?case
  proof cases
    case 1
    from toggleModel_frame [of m s] Cons.prems(2)
    have "r < next_ref (toggleModel m s)" "arrays (toggleModel m s) r = arrays s r"
      "messages (toggleModel m s) = messages s" "selectedModels (toggleModel m s) \<noteq> r"
      by auto
    with Cons.IH [OF rest, of "toggleModel m s"] 1 show ?thesis by simp
  next
    case 2
    from fetchModels_frame [of ids s] Cons.prems(2,3)
    have "r < next_ref (fetchModels ids s)" "arrays (fetchModels ids s) r = arrays s r"
      "messages (fetchModels ids s) = messages s" "selectedModels (fetchModels ids s) \<noteq> r"
      by auto
    with Cons.IH [OF rest, of "fetchModels ids s"] 2 show ?thesis by simp
  qed
qed

text \<open>
  The selection always refers to an allocated array: \<open>selectedModels < next_ref\<close>
  holds initially and after every action.
\<close>

lemma exchange_step_store:
  "selectedModels (fst (exchange_step msg ph ev s)) = selectedModels s \<and>
   next_ref (fst (exchange_step msg ph ev s)) = next_ref s \<and>
   arrays (fst (exchange_step msg ph ev s)) = arrays s"
proof (cases "(msg, ph, ev, s)" rule: exchange_step.cases)
  case (1 msg' r s')
  then show ?thesis
    by (simp add: on_fetch_def finally_block_def catch_block_def Let_def
        split: fetch_result.splits option.splits)
next
  case (2 msg' r s')
  then show ?thesis
    by (simp add: on_read_def finally_block_def catch_block_def process_chunk_def Let_def
        split: read_result.splits option.splits)
qed simp_all

lemma sendPrompt_store:
  "selectedModels (fst (sendPrompt tu ta arg s)) = selectedModels s \<and>
   next_ref s \<le> next_ref (fst (sendPrompt tu ta arg s))"
  by (simp add: sendPrompt_def Let_def new_array_def)

lemma step_store_wf:
  assumes "selectedModels (fst c) < next_ref (fst c)"
  shows "selectedModels (fst (step a c)) < next_ref (fst (step a c))"
proof (cases c)
  case (Pair s exs)
  show ?thesis
  proof (cases a)
    case (Dispatch tu ta arg)
    with sendPrompt_store [of tu ta arg s] assms Pair show ?thesis
      by (simp add: step_Dispatch_fst del: step.simps)
  next
    case (Toggle m)
    with toggleModel_frame [of m s] Pair show ?thesis by simp
  next
    case (ModelsFetched ids)
    with assms Pair show ?thesis
      by (simp add: fetchModels_def new_array_def Let_def)
  next
    case (Deliver k ev)
    show ?thesis
    proof (cases "k < length exs")
      case True
      with exchange_step_store [of "fst (exs ! k)" "snd (exs ! k)" ev s] assms Pair Deliver
      show ?thesis by (simp add: step_Deliver del: step.simps)
    next
      case False
      with assms Pair Deliver show ?thesis by simp
    qed
  qed (insert assms Pair, simp_all)
qed

lemma run_store_wf:
  "selectedModels (fst c) < next_ref (fst c) \<Longrightarrow>
     selectedModels (fst (run acts c)) < next_ref (fst (run acts c))"
  by (induction acts arbitrary: c) (simp_all add: step_store_wf)

lemma reachable_store_wf:
  "selectedModels (fst (run acts (init_state, []))) < next_ref (fst (run acts (init_state, [])))"
  by (rule run_store_wf) (simp add: init_state_def)

section \<open>What an exchange leaves alone\<close>

text \<open>
  Every handler of an exchange keeps the ids of the log and writes to no turn whose
  id differs from the id of the exchange's message.
\<close>

lemma on_data_length [simp]: "length (on_data msg data msgs) = length msgs"
  by (simp add: on_data_def split: sum.splits option.splits)

lemma on_data_ids: "map id' (on_data msg data msgs) = map id' msgs"
  by (simp add: on_data_def update_message_ids split: sum.splits option.splits)

lemma on_data_other:
  "id' (msgs ! j) \<noteq> id' msg \<Longrightarrow> on_data msg data msgs ! j = msgs ! j"
  by (simp add: on_data_def update_message_other split: sum.splits option.splits)

lemma process_lines_ids: "map id' (process_lines msg lines msgs) = map id' msgs"
  by (induction lines arbitrary: msgs) (simp_all add: Let_def on_data_ids)

lemma process_lines_other:
  "id' (msgs ! j) \<noteq> id' msg \<Longrightarrow> process_lines msg lines msgs ! j = msgs ! j"
proof (induction lines arbitrary: msgs)
  case Nil
  then show ?case by simp
next
  case (Cons line lines)
  have "id' (on_data msg data msgs ! j) \<noteq> id' msg" for data
    using Cons.prems by (simp add: on_data_other)
  from Cons.IH [OF this] Cons.IH [OF Cons.prems] Cons.prems show ?case
    by (simp add: Let_def on_data_other)
qed

lemma catch_block_ids: "map id' (messages (catch_block msg e s)) = map id' (messages s)"
  by (simp add: catch_block_def update_message_ids)

lemma catch_block_other:
  "id' (messages s ! j) \<noteq> id' msg \<Longrightarrow> messages (catch_block msg e s) ! j = messages s ! j"
  by (simp add: catch_block_def update_message_other)

lemma finally_block_messages:
  "messages (finally_block msg s) =
     update_message (id' msg) (\<lambda>m. m\<lparr>loading := Some False\<rparr>) (messages s)"
  by (simp add: finally_block_def Let_def split: option.splits)

lemma finally_block_ids: "map id' (messages (finally_block msg s)) = map id' (messages s)"
  by (simp add: finally_block_messages update_message_ids)

lemma finally_block_other:
  "id' (messages s ! j) \<noteq> id' msg \<Longrightarrow> messages (finally_block msg s) ! j = messages s ! j"
  by (simp add: finally_block_messages update_message_other)


lemma exchange_step_ids:
  "map id' (messages (fst (exchange_step msg ph ev s))) = map id' (messages s)"
proof (cases "(msg, ph, ev, s)" rule: exchange_step.cases)
  case (1 msg' r s')
  then show ?thesis
    by (simp add: on_fetch_def finally_block_ids catch_block_ids split: fetch_result.splits)
next
  case (2 msg' r s')
  then show ?thesis
    by (simp add: on_read_def finally_block_ids catch_block_ids process_chunk_def
        process_lines_ids split: read_result.splits)
qed simp_all

lemma exchange_step_other:
  assumes "id' (messages s ! j) \<noteq> id' msg"
  shows "messages (fst (exchange_step msg ph ev s)) ! j = messages s ! j"
proof -
  have c: "id' (messages (catch_block msg e s) ! j) \<noteq> id' msg" for e
    using assms by (simp add: catch_block_other)
  show ?thesis
  proof (cases "(msg, ph, ev, s)" rule: exchange_step.cases)
    case (1 msg' r s')
    then show ?thesis
      using assms c
      by (simp add: on_fetch_def finally_block_other catch_block_other split: fetch_result.splits)
  next
    case (2 msg' r s')
    then show ?thesis
      using assms c
      by (simp add: on_read_def finally_block_other catch_block_other process_chunk_def
          process_lines_other split: read_result.splits)
  qed simp_all
qed

lemma finally_block_at:
  assumes "distinct (map id' (messages s))" and "i < length (messages s)"
    and "id' (messages s ! i) = id' msg"
  shows "messages (finally_block msg s) =
           (messages s)[i := (messages s ! i)\<lparr>loading := Some False\<rparr>]"
  using update_message_at [OF assms] by (simp add: finally_block_messages)

lemma catch_block_at:
  assumes "distinct (map id' (messages s))" and "i < length (messages s)"
    and "id' (messages s ! i) = id' msg"
  shows "messages (catch_block msg e s) =
           (messages s)[i := (messages s ! i)\<lparr>error := Some e, loading := Some False\<rparr>]"
  using update_message_at [OF assms] by (simp add: catch_block_def)

lemma failed_at:
  assumes "distinct (map id' (messages s))" and "i < length (messages s)"
    and "id' (messages s ! i) = id' msg"
  shows "messages (finally_block msg (catch_block msg e s)) =
           (messages s)[i := (messages s ! i)\<lparr>error := Some e, loading := Some False\<rparr>]"
proof -
  let ?c = "catch_block msg e s"
  have c: "messages ?c = (messages s)[i := (messages s ! i)\<lparr>error := Some e, loading := Some False\<rparr>]"
    by (rule catch_block_at [OF assms])
  have "distinct (map id' (messages ?c))"
    using assms(1) by (simp add: catch_block_ids)
  moreover have "i < length (messages ?c)" "id' (messages ?c ! i) = id' msg"
    using assms(2,3) by (simp_all add: c)
  ultimately show ?thesis
    using finally_block_at [of ?c i msg] assms(2) by (simp add: c)
qed



lemma exit_runs_finally:
  assumes "exchange_step msg ph ev s = (s', ph')"
    and "ph = Pending \<or> ph = Streaming" and "ph' = Complete \<or> ph' = Failed"
  shows "s' = finally_block msg s \<or> (\<exists>e. s' = finally_block msg (catch_block msg e s))"
proof (cases "(msg, ph, ev, s)" rule: exchange_step.cases)
  case (1 msg' r s0)
  with assms show ?thesis
    by (auto simp: on_fetch_def split: fetch_result.splits if_splits)
next
  case (2 msg' r s0)
  with assms show ?thesis
    by (auto simp: on_read_def split: read_result.splits)
qed (insert assms, auto)

lemma sentinel_stops_lines:
  assumes "list_all (\<lambda>l. l \<noteq> ''data: [DONE]'') pre"
  shows "process_lines msg (pre @ ''data: [DONE]'' # post) msgs = process_lines msg pre msgs"
  using assms
proof (induction pre arbitrary: msgs)
  case Nil
  show ?case by simp
next
  case (Cons line pre)
  from Cons.prems have rest: "list_all (\<lambda>l. l \<noteq> ''data: [DONE]'') pre" by simp
  show ?case
  proof (cases "startsWith ''data: '' line \<and> drop 6 line = ''[DONE]''")
    case True
    then show ?thesis by simp
  next
    case False
    then show ?thesis using Cons.IH [OF rest] by (auto simp: Let_def)
  qed
qed

lemma foreign_run_frame:
  assumes "list_all (foreign_to k) sched"
    and "distinct (map (id' \<circ> fst) exs)" and "k < length exs"
    and "id' (messages s ! i) = id' (fst (exs ! k))"
    and "run sched (s, exs) = (s1, exs1)"
  shows "map id' (messages s1) = map id' (messages s) \<and> messages s1 ! i = messages s ! i \<and>
         map fst exs1 = map fst exs \<and> exs1 ! k = exs ! k"
  using assms
proof (induction sched arbitrary: s exs)
  case Nil
  then show ?case by simp
next
  case (Cons a sched)
  from Cons.prems(1) have rest: "list_all (foreign_to k) sched" and a: "foreign_to k a"
    by simp_all
  obtain sa exsa where sa: "step a (s, exs) = (sa, exsa)" by (cases "step a (s, exs)")
  have inv: "map id' (messages sa) = map id' (messages s) \<and> messages sa ! i = messages s ! i \<and>
      map fst exsa = map fst exs \<and> exsa ! k = exs ! k"
  proof (cases a)
    case (SetPrompt v)
    with sa show ?thesis by auto
  next
    case (SetModelPrompt m v)
    with sa show ?thesis by auto
  next
    case (Dispatch tu ta arg)
    with a show ?thesis by (simp add: foreign_to_def)
  next
    case (Toggle m)
    with sa show ?thesis by (auto simp: toggleModel_frame)
  next
    case (ModelsFetched ids)
    with sa show ?thesis by (auto simp: fetchModels_frame)
  next
    case (Deliver k' ev)
    with a have neq: "k' \<noteq> k" by (simp add: foreign_to_def)
    show ?thesis
    proof (cases "k' < length exs")
      case False
      with sa Deliver show ?thesis by auto
    next
      case True
      obtain m' ph where ex: "exs ! k' = (m', ph)" by (cases "exs ! k'")
      from Cons.prems(2,3) True neq have "(id' \<circ> fst) (exs ! k') \<noteq> (id' \<circ> fst) (exs ! k)"
        by (simp add: distinct_conv_nth)
      with ex Cons.prems(4) have other: "id' (messages s ! i) \<noteq> id' m'" by simp
      obtain s' ph' where st: "exchange_step m' ph ev s = (s', ph')"
        by (cases "exchange_step m' ph ev s")
      from sa Deliver True ex st have res: "sa = s'" "exsa = exs[k' := (m', ph')]" by simp_all
      have "map id' (messages s') = map id' (messages s)"
        using exchange_step_ids [of m' ph ev s] st by simp
      moreover have "messages s' ! i = messages s ! i"
        using exchange_step_other [OF other, of ph ev] st by simp
      moreover have "map fst (exs[k' := (m', ph')]) = map fst exs"
        using ex True by (simp add: map_update list_update_same_conv)
      moreover have "exs[k' := (m', ph')] ! k = exs ! k"
        using neq by simp
      ultimately show ?thesis using res by simp
    qed
  qed
  then have eqs: "map fst exsa = map fst exs" "exsa ! k = exs ! k"
    "messages sa ! i = messages s ! i" "map id' (messages sa) = map id' (messages s)"
    by simp_all
  from eqs(1) have len: "length exsa = length exs" by (metis length_map)
  have d: "distinct (map (id' \<circ> fst) exsa)"
    using Cons.prems(2) eqs(1) by (metis map_map)
  have "run sched (sa, exsa) = (s1, exs1)" using Cons.prems(5) sa by simp
  from Cons.IH [OF rest d _ _ this] len Cons.prems(3,4) eqs show ?case by simp
qed

lemma own_step_after_foreign:
  assumes "linked i k msg ph c"
    and "list_all (foreign_to k) sched"
    and msgs: "\<And>s0. messages (fst (exchange_step msg ph ev s0)) =
                 update_message (id' msg) F (messages s0)"
    and ph': "\<And>s0. snd (exchange_step msg ph ev s0) = ph'"
    and F: "\<And>m. id' (F m) = id' m"
  shows "linked i k msg ph' (run (sched @ [Deliver k ev]) c) \<and>
         messages (fst (run (sched @ [Deliver k ev]) c)) ! i = F (messages (fst c) ! i)"
proof -
  obtain s exs where c: "c = (s, exs)" by (cases c)
  obtain s1 exs1 where r1: "run sched (s, exs) = (s1, exs1)" by (cases "run sched (s, exs)")
  from assms(1) c have l: "distinct (map id' (messages s))" "i < length (messages s)"
    "distinct (map (id' \<circ> fst) exs)" "k < length exs" "exs ! k = (msg, ph)"
    "id' (messages s ! i) = id' msg"
    by (simp_all add: linked_def)
  from l(5,6) have idk: "id' (messages s ! i) = id' (fst (exs ! k))" by simp
  from foreign_run_frame [OF assms(2) l(3,4) idk r1]
  have ids: "map id' (messages s1) = map id' (messages s)"
    and same: "messages s1 ! i = messages s ! i"
    and exs1: "map fst exs1 = map fst exs" "exs1 ! k = exs ! k"
    by simp_all
  from ids have len: "length (messages s1) = length (messages s)" by (metis length_map)
  from exs1(1) have klen: "k < length exs1" using l(4) by (metis length_map)
  have d1: "distinct (map id' (messages s1))" "i < length (messages s1)"
    "id' (messages s1 ! i) = id' msg"
    using l(1,2,6) ids len same by simp_all
  obtain s2 where s2: "exchange_step msg ph ev s1 = (s2, ph')"
    using ph' [of s1] by (cases "exchange_step msg ph ev s1") simp
  have final: "run (sched @ [Deliver k ev]) c = (s2, exs1[k := (msg, ph')])"
    using r1 s2 klen exs1(2) l(5) by (simp add: run_append c)
  have m2: "messages s2 = (messages s1)[i := F (messages s1 ! i)]"
    using msgs [of s1] s2 update_message_at [OF d1] by simp
  have "map id' (messages s2) = map id' (messages s1)"
    using msgs [of s1] s2 by (simp add: update_message_ids F)
  then have "distinct (map id' (messages s2))" using d1(1) by simp
  moreover have "map (id' \<circ> fst) (exs1[k := (msg, ph')]) = map (id' \<circ> fst) exs1"
    using exs1(2) l(5) klen by (simp add: map_update list_update_same_conv)
  then have "distinct (map (id' \<circ> fst) (exs1[k := (msg, ph')]))"
    using l(3) exs1(1) by (metis map_map)
  ultimately have "linked i k msg ph' (s2, exs1[k := (msg, ph')])"
    using d1(2,3) klen by (simp add: linked_def m2 F)
  then show ?thesis
    using final m2 d1(2) same by (simp add: c)
qed

lemma fetched_ok_effect:
  "messages (fst (on_fetch msg (FetchResponse True status True) s0)) =
     update_message (id' msg) (\<lambda>m. m) (messages s0)"
  "snd (on_fetch msg (FetchResponse True status True) s0) = Streaming"
  by (simp_all add: on_fetch_def update_message_same)

lemma read_chunk_effect:
  "messages (fst (on_read msg (ReadChunk chunk) s0)) =
     process_lines msg (split_on CHR 0x0A chunk) (messages s0)"
  "snd (on_read msg (ReadChunk chunk) s0) = Streaming"
  by (simp_all add: on_read_def process_chunk_def)

lemma read_done_effect:
  "messages (fst (on_read msg ReadDone s0)) =
     update_message (id' msg) (\<lambda>m. m\<lparr>loading := Some False\<rparr>) (messages s0)"
  "snd (on_read msg ReadDone s0) = Complete"
  by (simp_all add: on_read_def finally_block_messages)

section \<open>The projections against the rule of the specification\<close>

text \<open>
  The two filters of the source are the same test, up to the exclusion by id in the
  history.
\<close>

lemma history_filter_display:
  "model msg = Some M \<Longrightarrow>
     history_filter arrs msg t = (id' t \<noteq> id' msg \<and> display_filter arrs M t)"
  by (auto simp: history_filter_def display_filter_def split: option.splits)

lemma display_filter_spec:
  assumes "scope_wf t"
  shows "display_filter arrs M t = spec_selects arrs M t"
  using assms
  by (cases "role t")
     (auto simp: display_filter_def spec_selects_def scope_wf_def truthy_def
        array_includes_def split: option.splits)

lemma history_filter_spec:
  assumes "scope_wf t" and "model msg = Some M"
  shows "history_filter arrs msg t = (spec_selects arrs M t \<and> id' t \<noteq> id' msg)"
  using assms
  by (cases "role t")
     (auto simp: history_filter_def spec_selects_def scope_wf_def truthy_def
        array_includes_def split: option.splits)

lemma filter_without_key:
  assumes "distinct (map f (A @ x # B))"
  shows "filter (\<lambda>t. P t \<and> f t \<noteq> f x) (A @ x # B) = filter P (A @ B)"
proof -
  from assms have "f x \<notin> f ` set A" and "f x \<notin> f ` set B" by auto
  then have "\<forall>t \<in> set A. f t \<noteq> f x" and "\<forall>t \<in> set B. f t \<noteq> f x"
    by (metis image_eqI)+
  then have "filter (\<lambda>t. P t \<and> f t \<noteq> f x) A = filter P A"
    and "filter (\<lambda>t. P t \<and> f t \<noteq> f x) B = filter P B"
    by (simp_all cong: filter_cong)
  then show ?thesis by simp
qed

lemma filter_distinct_drop:
  assumes "distinct (map f xs)" and "i < length xs"
  shows "filter (\<lambda>t. P t \<and> f t \<noteq> f (xs ! i)) xs = filter P (take i xs @ drop (Suc i) xs)"
proof -
  have xs: "xs = take i xs @ xs ! i # drop (Suc i) xs"
    using assms(2) by (simp add: id_take_nth_drop)
  with assms(1) have "distinct (map f (take i xs @ xs ! i # drop (Suc i) xs))" by simp
  from filter_without_key [OF this, of P] xs show ?thesis by simp
qed

text \<open>
  The invariant is needed: the source tests \<open>model\<close> before \<open>targetModels\<close>, so a user
  turn that carried a model \<open>b\<close> and target models containing \<open>a\<close> would be left out
  of the projection for \<open>a\<close>, though the rule read as a disjunction selects it.  No
  dispatch creates such a turn.
\<close>

lemma model_takes_precedence:
  "\<not> display_filter (\<lambda>_. [''a'']) ''a''
       \<lparr>id' = ''1'', role = User, content = [], model = Some ''b'', targetModels = Some 0,
        loading = None, error = None\<rparr> \<and>
   spec_selects (\<lambda>_. [''a'']) ''a''
       \<lparr>id' = ''1'', role = User, content = [], model = Some ''b'', targetModels = Some 0,
        loading = None, error = None\<rparr>"
  by (simp add: display_filter_def spec_selects_def truthy_def)

section \<open>The scope invariant holds in every reachable log\<close>

lemma update_message_scope_wf:
  assumes "list_all scope_wf msgs"
    and "\<And>m. role (f m) = role m \<and> model (f m) = model m \<and> targetModels (f m) = targetModels m"
  shows "list_all scope_wf (update_message mid f msgs)"
proof (cases "findIndex (\<lambda>m. id' m = mid) msgs")
  case None
  with assms(1) show ?thesis by (simp add: update_message_def)
next
  case (Some i)
  from findIndex_Some_iff_first [OF Some] have i: "i < length msgs" by simp
  with assms(1) have "scope_wf (msgs ! i)" by (simp add: list_all_length)
  with assms(2) [of "msgs ! i"] have "scope_wf (f (msgs ! i))"
    by (simp add: scope_wf_def split: option.splits)
  with assms(1) show ?thesis
    by (auto simp: update_message_def Some list_all_iff dest!: set_update_subset_insert [THEN subsetD])
qed

lemma on_data_scope_wf:
  "list_all scope_wf msgs \<Longrightarrow> list_all scope_wf (on_data msg data msgs)"
  by (simp add: on_data_def update_message_scope_wf split: sum.splits option.splits)

lemma process_lines_scope_wf:
  "list_all scope_wf msgs \<Longrightarrow> list_all scope_wf (process_lines msg lines msgs)"
  by (induction lines arbitrary: msgs) (simp_all add: Let_def on_data_scope_wf)

lemma exchange_step_scope_wf:
  assumes "list_all scope_wf (messages s)"
  shows "list_all scope_wf (messages (fst (exchange_step msg ph ev s)))"
proof -
  have c: "list_all scope_wf (messages (catch_block msg e s))" for e
    using assms by (simp add: catch_block_def update_message_scope_wf)
  have f: "list_all scope_wf (messages (finally_block msg s0))"
    if "list_all scope_wf (messages s0)" for s0
    using that by (simp add: finally_block_messages update_message_scope_wf)
  show ?thesis
  proof (cases "(msg, ph, ev, s)" rule: exchange_step.cases)
    case (1 msg' r s')
    then show ?thesis
      using assms c f by (simp add: on_fetch_def split: fetch_result.splits)
  next
    case (2 msg' r s')
    then show ?thesis
      using assms c f
      by (simp add: on_read_def process_chunk_def process_lines_scope_wf
          split: read_result.splits)
  qed (insert assms, simp_all)
qed

lemma sendPrompt_scope_wf:
  assumes "list_all scope_wf (messages s)" and "arg \<noteq> ModelArgument []"
  shows "list_all scope_wf (messages (fst (sendPrompt tu ta arg s)))"
proof (cases "trim (currentPrompt_of arg s) = [] \<or> activeModels_of arg s = []")
  case True
  with assms(1) show ?thesis by (simp add: sendPrompt_rejected)
next
  case False
  then have p: "trim (currentPrompt_of arg s) \<noteq> []" and a: "activeModels_of arg s \<noteq> []"
    by simp_all
  have u: "scope_wf (userMessage_of tu (currentPrompt_of arg s) (resolvedTargetId_of arg)
      (if isGlobalFixed_of arg then Some (next_ref s) else None))"
    using assms(2)
    by (cases arg)
       (simp_all add: scope_wf_def userMessage_of_def resolvedTargetId_of_def
          isGlobalFixed_of_def truthy_def)
  have "list_all scope_wf (assistantMessages_of ta targets)" for targets
    by (simp add: assistantMessages_of_def list_all_iff scope_wf_def placeholder_def
        case_prod_unfold)
  with u assms(1) show ?thesis
    by (simp add: sendPrompt_messages [OF p a])
qed

lemma step_scope_wf:
  assumes "list_all scope_wf (messages (fst c))" and "named_target a"
  shows "list_all scope_wf (messages (fst (step a c)))"
proof (cases c)
  case (Pair s exs)
  show ?thesis
  proof (cases a)
    case (Dispatch tu ta arg)
    with assms(2) have "arg \<noteq> ModelArgument []" by (auto simp: named_target_def)
    from sendPrompt_scope_wf [OF _ this, of s tu ta] assms(1) Pair Dispatch show ?thesis
      by (simp add: step_Dispatch_fst del: step.simps)
  next
    case (Deliver k ev)
    show ?thesis
    proof (cases "k < length exs")
      case True
      obtain m ph where "exs ! k = (m, ph)" by (cases "exs ! k")
      with exchange_step_scope_wf [of s m ph ev] assms(1) Pair Deliver True show ?thesis
        by (simp add: case_prod_unfold Let_def)
    next
      case False
      with assms(1) Pair Deliver show ?thesis by simp
    qed
  qed (insert assms(1) Pair, simp_all add: toggleModel_frame fetchModels_frame)
qed

lemma run_scope_wf:
  assumes "list_all named_target acts" and "list_all scope_wf (messages (fst c))"
  shows "list_all scope_wf (messages (fst (run acts c)))"
  using assms
proof (induction acts arbitrary: c)
  case Nil
  then show ?case by simp
next
  case (Cons a acts)
  from Cons.prems have "list_all scope_wf (messages (fst (step a c)))"
    by (simp add: step_scope_wf)
  with Cons.IH [of "step a c"] Cons.prems(1) show ?case by simp
qed

lemma reachable_scope_wf:
  "list_all named_target acts \<Longrightarrow>
     list_all scope_wf (messages (fst (run acts (init_state, []))))"
  by (rule run_scope_wf) (simp_all add: init_state_def)

section \<open>Ids and the clock\<close>

text \<open>
  The decimal rendering is injective and has no \<open>-\<close>, so an id determines the clock
  reading it was made from, and the ids of one dispatch differ from one another.  A
  dispatch keeps the ids of the log distinct when its clock readings are later than
  every reading recorded in the log.
\<close>

lemma of_char_digit: "d < 10 \<Longrightarrow> (of_char (digit_char d) :: nat) = 48 + d"
  by (simp add: digit_char_def)

lemma digits_value_snoc: "digits_value (cs @ [c]) = 10 * digits_value cs + (of_char c - 48)"
  by (simp add: digits_value_def)

lemma digits_value_string_of_nat: "digits_value (string_of_nat n) = n"
proof (induction n rule: string_of_nat.induct)
  case (1 n)
  show ?case
  proof (cases "n < 10")
    case True
    then show ?thesis
      by (subst string_of_nat.simps) (simp add: digits_value_def of_char_digit)
  next
    case False
    with "1" have "digits_value (string_of_nat (n div 10)) = n div 10" by simp
    with False show ?thesis
      by (subst string_of_nat.simps) (simp add: digits_value_snoc of_char_digit)
  qed
qed

lemma string_of_nat_inj: "string_of_nat a = string_of_nat b \<Longrightarrow> a = b"
  by (metis digits_value_string_of_nat)

lemma digit_char_not_dash: "d < 10 \<Longrightarrow> digit_char d \<noteq> CHR ''-''"
proof
  assume "d < 10" and "digit_char d = CHR ''-''"
  then have "(of_char (digit_char d) :: nat) = of_char CHR ''-''" by simp
  with \<open>d < 10\<close> show False by (simp add: of_char_digit)
qed

lemma string_of_nat_no_dash: "CHR ''-'' \<notin> set (string_of_nat n)"
proof (induction n rule: string_of_nat.induct)
  case (1 n)
  show ?case
  proof (cases "n < 10")
    case True
    then show ?thesis
      using digit_char_not_dash [of n] by (subst string_of_nat.simps) auto
  next
    case False
    with "1" have "CHR ''-'' \<notin> set (string_of_nat (n div 10))" by simp
    with False show ?thesis
      using digit_char_not_dash [of "n mod 10"] by (subst string_of_nat.simps) auto
  qed
qed

lemma no_dash_all: "\<forall>c \<in> set (string_of_nat t). c \<noteq> CHR ''-''"
  using string_of_nat_no_dash [of t] by blast

lemma takeWhile_no_dash:
  "takeWhile (\<lambda>c. c \<noteq> CHR ''-'') (string_of_nat t @ CHR ''-'' # rest) = string_of_nat t"
  using no_dash_all [of t] by (simp add: takeWhile_tail)

lemma id_time_user: "id_time (string_of_nat t) = t"
proof -
  have h: "takeWhile (\<lambda>c. c \<noteq> CHR ''-'') (string_of_nat t) = string_of_nat t"
    using no_dash_all [of t] by (simp add: takeWhile_eq_all_conv)
  show ?thesis by (simp add: id_time_def h digits_value_string_of_nat)
qed

lemma id_time_placeholder: "id_time (string_of_nat t @ ''-'' @ string_of_nat k) = t"
  using takeWhile_no_dash [of t "string_of_nat k"]
  by (simp add: id_time_def digits_value_string_of_nat)

lemma placeholder_id_inj:
  assumes "string_of_nat t @ ''-'' @ string_of_nat k = string_of_nat t' @ ''-'' @ string_of_nat k'"
  shows "t = t' \<and> k = k'"
proof -
  from assms have "id_time (string_of_nat t @ ''-'' @ string_of_nat k) =
      id_time (string_of_nat t' @ ''-'' @ string_of_nat k')" by simp
  then have t: "t = t'" by (simp only: id_time_placeholder)
  with assms have "string_of_nat k = string_of_nat k'" by simp
  with t show ?thesis by (simp add: string_of_nat_inj)
qed

lemma user_id_not_placeholder:
  "string_of_nat t \<noteq> string_of_nat t' @ ''-'' @ string_of_nat k"
proof
  assume "string_of_nat t = string_of_nat t' @ ''-'' @ string_of_nat k"
  then have "CHR ''-'' \<in> set (string_of_nat t)" by simp
  with string_of_nat_no_dash show False by blast
qed

lemma placeholders_distinct: "distinct (map id' (assistantMessages_of ta targets))"
proof -
  have "id' (assistantMessages_of ta targets ! i) \<noteq> id' (assistantMessages_of ta targets ! j)"
    if "i < length targets" "j < length targets" "i \<noteq> j" for i j
    using that placeholder_id_inj [of "ta i" i "ta j" j]
    by (auto simp: assistantMessages_of_nth placeholder_def)
  then show ?thesis
    by (simp add: distinct_conv_nth)
qed

lemma placeholder_times:
  "m \<in> set (assistantMessages_of ta targets) \<Longrightarrow> \<exists>k. id_time (id' m) = ta k"
  by (auto simp: assistantMessages_of_def placeholder_def id_time_placeholder
      simp del: append.simps)

lemma dispatch_keeps_ids_distinct:
  assumes "distinct (map id' (messages s))"
    and "\<forall>m \<in> set (messages s). id_time (id' m) < tu \<and> (\<forall>k. id_time (id' m) < ta k)"
  shows "distinct (map id' (messages (fst (sendPrompt tu ta arg s))))"
proof (cases "trim (currentPrompt_of arg s) = [] \<or> activeModels_of arg s = []")
  case True
  with assms(1) show ?thesis by (simp add: sendPrompt_rejected)
next
  case False
  then have p: "trim (currentPrompt_of arg s) \<noteq> []" and a: "activeModels_of arg s \<noteq> []"
    by simp_all
  define u where "u = userMessage_of tu (currentPrompt_of arg s) (resolvedTargetId_of arg)
      (if isGlobalFixed_of arg then Some (next_ref s) else None)"
  define ps where "ps = assistantMessages_of ta (activeModels_of arg s)"
  have u: "id' u = string_of_nat tu" by (simp add: u_def userMessage_of_def)
  have fresh: "id' u \<noteq> id' m" if "m \<in> set ps" for m
  proof -
    from that obtain k where "k < length (activeModels_of arg s)" "m = ps ! k"
      by (auto simp: in_set_conv_nth ps_def)
    then have "id' m = string_of_nat (ta k) @ ''-'' @ string_of_nat k"
      by (simp add: ps_def assistantMessages_of_nth placeholder_def)
    with user_id_not_placeholder [of tu "ta k" k] show ?thesis by (simp only: u) simp
  qed
  have "id' u \<notin> id' ` set ps"
  proof
    assume "id' u \<in> id' ` set ps"
    then obtain m where "m \<in> set ps" "id' u = id' m" by (rule imageE)
    with fresh show False by blast
  qed
  then have new: "distinct (map id' (u # ps))"
    using placeholders_distinct [of ta "activeModels_of arg s"]
    by (simp add: ps_def)
  have old_new: "id' m \<noteq> id' n" if "m \<in> set (messages s)" "n \<in> set (u # ps)" for m n
  proof
    assume eq: "id' m = id' n"
    from that(2) consider "n = u" | "n \<in> set ps" by auto
    then show False
    proof cases
      case 1
      with eq have "id_time (id' m) = tu" by (simp add: u id_time_user)
      with assms(2) that(1) show False by auto
    next
      case 2
      then have "n \<in> set (assistantMessages_of ta (activeModels_of arg s))"
        by (simp add: ps_def)
      from placeholder_times [OF this] obtain k where k: "id_time (id' n) = ta k" ..
      from assms(2) that(1) have "id_time (id' m) < ta k" by blast
      with eq k show False by simp
    qed
  qed
  have "set (map id' (messages s)) \<inter> set (map id' (u # ps)) = {}"
  proof (rule ccontr)
    assume "set (map id' (messages s)) \<inter> set (map id' (u # ps)) \<noteq> {}"
    then obtain x where "x \<in> set (map id' (messages s))" "x \<in> set (map id' (u # ps))"
      by blast
    then obtain m n where "m \<in> set (messages s)" "n \<in> set (u # ps)" "id' m = x" "id' n = x"
      by (auto simp only: set_map)
    with old_new [of m n] show False by simp
  qed
  with assms(1) new have "distinct (map id' (messages s @ u # ps))"
    by (simp only: map_append distinct_append)
  then show ?thesis by (simp add: sendPrompt_messages [OF p a] u_def ps_def)
qed

section \<open>The platform functions, evaluated\<close>

text \<open>
  White space of more than one byte is trimmed; an escape in a JSON text gives the
  UTF-8 encoding of its character, also for a surrogate pair; a number is appended the
  way \<open>Number::toString\<close> prints it, and zero in any spelling is falsy.
\<close>

lemma trim_white_space:
  "trim ([CHR 0xC2, CHR 0xA0, CHR 0x09] @ ''Hi'' @ [CHR 0xE2, CHR 0x80, CHR 0xA8, CHR 0x20]) = ''Hi''"
  "trim [CHR 0xE3, CHR 0x80, CHR 0x80, CHR 0x0A] = []"
  by (simp_all add: trim_def is_white_space_1_def is_white_space_2_def is_white_space_3_def)

lemma escape_examples:
  "JSON_parse ([CHR 0x22, CHR 0x5C] @ ''u4e2d'' @ [CHR 0x22]) =
     Some (JString [CHR 0xE4, CHR 0xB8, CHR 0xAD])"
  "JSON_parse ([CHR 0x22, CHR 0x5C] @ ''ud83d'' @ [CHR 0x5C] @ ''ude00'' @ [CHR 0x22]) =
     Some (JString [CHR 0xF0, CHR 0x9F, CHR 0x98, CHR 0x80])"
  by code_simp+

lemma number_examples:
  "js_to_string (JNumber ''1.50'') = Some ''1.5''"
  "js_to_string (JNumber ''1e3'') = Some ''1000''"
  by code_simp+

lemma zero_examples:
  "\<not> js_truthy (JNumber ''0.0'')" "\<not> js_truthy (JNumber ''-0'')"
  "js_truthy (JNumber ''0.5'')"
  by code_simp+

lemma delta_number:
  \<open>delta_of ''{"choices":[{"delta":{"content":1.50}}]}'' = Inr (Some (JNumber ''1.50''))\<close>
  by code_simp

section \<open>The scenarios, evaluated\<close>

lemma string_of_nat_small [simp]:
  "string_of_nat 0 = ''0''" "string_of_nat (Suc 0) = ''1''" "string_of_nat 7 = ''7''"
  "string_of_nat 500 = ''500''"
  by code_simp+

lemma string_of_nat_8 [simp]: "string_of_nat 8 = ''8''"
  by code_simp

lemma trim_examples [simp]:
  "trim ''x'' = ''x''" "trim ''y'' = ''y''" "trim ''Hi'' = ''Hi''" "trim ''again'' = ''again''"
  by (simp_all add: trim_def is_white_space_1_def is_white_space_2_def is_white_space_3_def)

lemma example_start_fields:
  "prompt (fst example_start) = ''Hi''"
  "arrays (fst example_start) (Suc 0) = [''openai/gpt-4'', ''anthropic/claude-3'']"
  "messages (fst example_start) = []"
  "selectedModels (fst example_start) = Suc 0"
  "next_ref (fst example_start) = 2"
  "isModelLoading (fst example_start) = Map.empty"
  "snd example_start = []"
  by (simp_all add: example_start_def init_state_def fetchModels_def new_array_def)

lemma example_sendPrompt:
  "fst (sendPrompt 7 (\<lambda>_. 7) NoArgument (fst example_start)) = fst example_config"
  by (simp add: example_config_def step_Dispatch_fst)

lemma example_sendPrompt_pair:
  "sendPrompt 7 (\<lambda>_. 7) NoArgument (fst example_start) =
     (fst example_config, snd (sendPrompt 7 (\<lambda>_. 7) NoArgument (fst example_start)))"
  by (simp add: example_sendPrompt [symmetric])

lemma example_global:
  "isGlobalFixed_of NoArgument" "resolvedTargetId_of NoArgument = None"
  by (simp_all add: isGlobalFixed_of_def resolvedTargetId_of_def truthy_def)

lemma example_config_state:
  "fst example_config =
     (fst example_start)\<lparr>prompt := [],
        messages := [example_user, gpt_turn, claude_turn],
        isModelLoading := [''openai/gpt-4'' \<mapsto> True, ''anthropic/claude-3'' \<mapsto> True],
        arrays := (arrays (fst example_start))(2 := [''openai/gpt-4'', ''anthropic/claude-3'']),
        next_ref := 3\<rparr>"
  unfolding example_sendPrompt [symmetric]
  by (subst sendPrompt_global)
     (simp_all add: example_global example_start_fields assistantMessages_of_def
        enumerate_eq_zip example_user_def gpt_turn_def claude_turn_def mark_loading_def)

lemma example_config_fields:
  "messages (fst example_config) = [example_user, gpt_turn, claude_turn]"
  "arrays (fst example_config) 2 = [''openai/gpt-4'', ''anthropic/claude-3'']"
  "arrays (fst example_config) (Suc 0) = [''openai/gpt-4'', ''anthropic/claude-3'']"
  "selectedModels (fst example_config) = Suc 0"
  "next_ref (fst example_config) = 3"
  "isModelLoading (fst example_config) ''openai/gpt-4'' = Some True"
  "isModelLoading (fst example_config) ''anthropic/claude-3'' = Some True"
  by (simp_all add: example_config_state example_start_fields)

lemma example_config_exchanges:
  "snd example_config = [(gpt_turn, Pending), (claude_turn, Pending)]"
proof -
  have "snd (sendPrompt 7 (\<lambda>_. 7) NoArgument (fst example_start)) =
      map (\<lambda>msg. (msg, request_of msg (fst (sendPrompt 7 (\<lambda>_. 7) NoArgument (fst example_start)))))
        (assistantMessages_of (\<lambda>_. 7) (activeModels_of NoArgument (fst example_start)))"
    by (rule sendPrompt_launched)
       (simp_all add: currentPrompt_of_def activeModels_of_def example_global
          example_start_fields)
  then show ?thesis
    by (simp add: example_config_def step_Dispatch_snd example_start_fields
        activeModels_of_def example_global assistantMessages_of_def enumerate_eq_zip
        gpt_turn_def claude_turn_def comp_def)
qed

lemma example_turns [simp]:
  "id' example_user = ''7''" "id' gpt_turn = ''7-0''" "id' claude_turn = ''7-1''"
  "role example_user = User" "role gpt_turn = Assistant" "role claude_turn = Assistant"
  "model example_user = None" "model gpt_turn = Some ''openai/gpt-4''"
  "model claude_turn = Some ''anthropic/claude-3''"
  "targetModels example_user = Some 2" "targetModels gpt_turn = None"
  "targetModels claude_turn = None"
  "content example_user = ''Hi''" "content gpt_turn = []" "content claude_turn = []"
  "loading example_user = None" "loading gpt_turn = Some True" "loading claude_turn = Some True"
  "error example_user = None" "error gpt_turn = None" "error claude_turn = None"
  by (simp_all add: example_user_def gpt_turn_def claude_turn_def userMessage_of_def
      placeholder_def)

lemma example_wf: "list_all scope_wf (messages (fst example_config))"
  by (simp add: example_config_fields scope_wf_def)

lemma example_distinct: "distinct (map id' (messages (fst example_config)))"
  by (simp add: example_config_fields)

lemma example_exchange_ids: "distinct (map (id' \<circ> fst) (snd example_config))"
  by (simp add: example_config_exchanges)

lemma findIndex_examples [simp]:
  "findIndex (\<lambda>m. id' m = ''7-0'') (example_user # gpt_turn # rest) = Some 1"
  "findIndex (\<lambda>m. id' m = ''7-1'') (example_user # gpt_turn # claude_turn # rest) = Some 2"
  by simp_all

lemma second_round_messages:
  "messages second_round =
     [example_user, gpt_turn\<lparr>error := Some ''Status: 500'', loading := Some False\<rparr>, claude_turn,
      userMessage_of 8 ''again'' None (Some 3),
      placeholder 8 0 ''openai/gpt-4'', placeholder 8 1 ''anthropic/claude-3'']"
  "arrays second_round 2 = [''openai/gpt-4'', ''anthropic/claude-3'']"
  "arrays second_round 3 = [''openai/gpt-4'', ''anthropic/claude-3'']"
proof -
  let ?c1 = "step (Deliver 0 (Fetched (FetchResponse False 500 True))) example_config"
  have m1: "messages (fst ?c1) =
      [example_user, gpt_turn\<lparr>error := Some ''Status: 500'', loading := Some False\<rparr>,
       claude_turn]"
    by (simp add: step_Deliver example_config_exchanges example_config_fields on_fetch_def
        catch_block_def finally_block_messages update_message_def)
  have f1: "arrays (fst ?c1) = arrays (fst example_config)"
    "selectedModels (fst ?c1) = selectedModels (fst example_config)"
    "next_ref (fst ?c1) = next_ref (fst example_config)"
    by (simp_all add: step_Deliver example_config_exchanges on_fetch_def catch_block_def
        finally_block_def Let_def truthy_def)
  let ?s2 = "(fst ?c1)\<lparr>prompt := ''again''\<rparr>"
  have s2: "fst (step (SetPrompt ''again'') ?c1) = ?s2"
    by (cases ?c1) simp
  have "second_round = fst (sendPrompt 8 (\<lambda>_. 8) NoArgument ?s2)"
    by (simp add: second_round_def step_Dispatch_fst s2)
  also have "\<dots> = ?s2\<lparr>prompt := [],
        messages := messages ?s2 @ userMessage_of 8 (prompt ?s2) (resolvedTargetId_of NoArgument)
              (Some (next_ref ?s2))
           # assistantMessages_of (\<lambda>_. 8) (arrays ?s2 (selectedModels ?s2)),
        isModelLoading := mark_loading (arrays ?s2 (selectedModels ?s2)) (isModelLoading ?s2),
        arrays := (arrays ?s2)(next_ref ?s2 := arrays ?s2 (selectedModels ?s2)),
        next_ref := Suc (next_ref ?s2)\<rparr>"
    by (rule sendPrompt_global) (simp_all add: example_global f1 example_config_fields)
  finally have sr: "second_round = \<dots>" .
  show "messages second_round =
     [example_user, gpt_turn\<lparr>error := Some ''Status: 500'', loading := Some False\<rparr>, claude_turn,
      userMessage_of 8 ''again'' None (Some 3),
      placeholder 8 0 ''openai/gpt-4'', placeholder 8 1 ''anthropic/claude-3'']"
    by (subst sr)
       (simp add: m1 f1 example_config_fields example_global assistantMessages_of_def
          enumerate_eq_zip)
  show "arrays second_round 2 = [''openai/gpt-4'', ''anthropic/claude-3'']"
    "arrays second_round 3 = [''openai/gpt-4'', ''anthropic/claude-3'']"
    by (subst sr, simp add: f1 example_config_fields)+
qed

lemma collision_start_fields:
  "modelPrompts (fst collision_start) ''a'' = Some ''x''"
  "modelPrompts (fst collision_start) ''b'' = Some ''y''"
  "messages (fst collision_start) = []"
  by (simp_all add: collision_start_def init_state_def)

lemma delta_Hel:
  \<open>delta_of ''{"choices":[{"delta":{"content":"Hel"}}]}'' = Inr (Some (JString ''Hel''))\<close>
  by code_simp

lemma delta_lo:
  \<open>delta_of ''{"choices":[{"delta":{"content":"lo"}}]}'' = Inr (Some (JString ''lo''))\<close>
  by code_simp

lemma delta_Y:
  \<open>delta_of ''{"choices":[{"delta":{"content":"Y"}}]}'' = Inr (Some (JString ''Y''))\<close>
  by code_simp

lemma hello_chunk_1_lines:
  "process_lines msg (split_on CHR 0x0A hello_chunk_1) msgs =
     update_message (id' msg)
       (\<lambda>m. m\<lparr>content := content m @ ''Hel'', loading := Some False\<rparr>) msgs"
  by (simp add: hello_chunk_1_def on_data_def delta_Hel)

lemma hello_chunk_2_lines:
  "process_lines msg (split_on CHR 0x0A hello_chunk_2) msgs =
     update_message (id' msg)
       (\<lambda>m. m\<lparr>content := content m @ ''lo'', loading := Some False\<rparr>) msgs"
  by (simp add: hello_chunk_2_def on_data_def delta_lo)

lemma hello_chunk_3_lines:
  "process_lines msg (split_on CHR 0x0A hello_chunk_3) msgs = msgs"
  by (simp add: hello_chunk_3_def)

lemma done_chunk_lines:
  \<open>split_on CHR 0x0A done_chunk =
     [] @ ''data: [DONE]'' # [''data: {"choices":[{"delta":{"content":"X"}}]}'', '''']\<close>
  by (simp add: done_chunk_def)

lemma after_chunk_lines:
  "process_lines msg (split_on CHR 0x0A after_chunk) msgs =
     update_message (id' msg) (\<lambda>m. m\<lparr>content := content m @ ''Y'', loading := Some False\<rparr>) msgs"
  by (simp add: after_chunk_def on_data_def delta_Y)


lemma collided_messages:
  "messages (fst collided) =
     [userMessage_of 7 ''x'' (Some ''a'') None, placeholder 7 0 ''a'',
      userMessage_of 7 ''y'' (Some ''b'') None, placeholder 7 0 ''b'']"
proof -
  let ?s1 = "fst (sendPrompt 7 (\<lambda>_. 7) (ModelArgument ''a'') (fst collision_start))"
  have s1: "messages ?s1 = [userMessage_of 7 ''x'' (Some ''a'') None, placeholder 7 0 ''a'']"
    "modelPrompts ?s1 ''b'' = Some ''y''"
    by (simp_all add: sendPrompt_per_model [where p = "''x''"] collision_start_fields
        assistantMessages_of_def)
  have "messages (fst (sendPrompt 7 (\<lambda>_. 7) (ModelArgument ''b'') ?s1)) =
      [userMessage_of 7 ''x'' (Some ''a'') None, placeholder 7 0 ''a'',
       userMessage_of 7 ''y'' (Some ''b'') None, placeholder 7 0 ''b'']"
    by (simp add: sendPrompt_per_model [where p = "''y''"] s1 assistantMessages_of_def)
  then show ?thesis
    by (simp add: collided_def step_Dispatch_fst)
qed

text \<open>
  When two turns carry the same id, an exchange writes to the first of them: in the
  configuration \<open>collided\<close> the failure of the request of panel \<open>b\<close> is recorded on
  the turn of panel \<open>a\<close>, and the turn of \<open>b\<close> stays as it was.
\<close>

lemma collision_misroutes_failure:
  "messages (fst (exchange_step (placeholder 7 0 ''b'') Pending
                    (Fetched (FetchResponse False 500 True)) (fst collided))) =
     [userMessage_of 7 ''x'' (Some ''a'') None,
      (placeholder 7 0 ''a'')\<lparr>error := Some ''Status: 500'', loading := Some False\<rparr>,
      userMessage_of 7 ''y'' (Some ''b'') None, placeholder 7 0 ''b'']"
  by (simp add: on_fetch_def catch_block_def finally_block_messages update_message_def
      collided_messages userMessage_of_def placeholder_def)






lemma string_of_nat_9 [simp]: "string_of_nat 9 = ''9''"
  by code_simp

lemma reply_turns [simp]:
  "id' gpt_reply = ''9-0''" "id' claude_reply = ''9-0''"
  "model gpt_reply = Some ''openai/gpt-4''" "model claude_reply = Some ''anthropic/claude-3''"
  "content gpt_reply = []" "content claude_reply = []"
  "loading gpt_reply = Some True" "loading claude_reply = Some True"
  "error gpt_reply = None" "error claude_reply = None"
  by (simp_all add: gpt_reply_def claude_reply_def placeholder_def)

lemma reply_user_id [simp]: "id' (userMessage_of 9 p q r) = ''9''"
  by (simp add: userMessage_of_def)

lemma round_done_fields:
  "messages (fst round_done) =
     [example_user, gpt_turn\<lparr>loading := Some False\<rparr>, claude_turn\<lparr>loading := Some False\<rparr>]"
  "snd round_done = [(gpt_turn, Complete), (claude_turn, Complete)]"
  "isModelLoading (fst round_done) ''openai/gpt-4'' = Some False"
  "isModelLoading (fst round_done) ''anthropic/claude-3'' = Some False"
proof -
  define c1 where "c1 = step (Deliver 0 (Fetched (FetchResponse True 200 True))) example_config"
  define c2 where "c2 = step (Deliver 0 (Read ReadDone)) c1"
  define c3 where "c3 = step (Deliver 1 (Fetched (FetchResponse True 200 True))) c2"
  define c4 where "c4 = step (Deliver 1 (Read ReadDone)) c3"
  have run: "round_done = c4"
    by (simp add: round_done_def c1_def c2_def c3_def c4_def)
  have c1: "messages (fst c1) = [example_user, gpt_turn, claude_turn]"
    "snd c1 = [(gpt_turn, Streaming), (claude_turn, Pending)]"
    by (simp_all add: c1_def step_Deliver example_config_exchanges example_config_fields
        on_fetch_def)
  have c2: "messages (fst c2) = [example_user, gpt_turn\<lparr>loading := Some False\<rparr>, claude_turn]"
    "snd c2 = [(gpt_turn, Complete), (claude_turn, Pending)]"
    "isModelLoading (fst c2) ''openai/gpt-4'' = Some False"
    by (simp_all add: c2_def step_Deliver c1 on_read_def finally_block_def Let_def
        update_message_def truthy_def)
  have c3: "messages (fst c3) = messages (fst c2)"
    "snd c3 = [(gpt_turn, Complete), (claude_turn, Streaming)]"
    "isModelLoading (fst c3) ''openai/gpt-4'' = Some False"
    by (simp_all add: c3_def step_Deliver c2 on_fetch_def)
  have c4: "messages (fst c4) =
      [example_user, gpt_turn\<lparr>loading := Some False\<rparr>, claude_turn\<lparr>loading := Some False\<rparr>]"
    "snd c4 = [(gpt_turn, Complete), (claude_turn, Complete)]"
    "isModelLoading (fst c4) ''openai/gpt-4'' = Some False"
    "isModelLoading (fst c4) ''anthropic/claude-3'' = Some False"
    by (simp_all add: c4_def step_Deliver c3 c2 on_read_def finally_block_def Let_def
        update_message_def truthy_def)
  from c4 show "messages (fst round_done) =
     [example_user, gpt_turn\<lparr>loading := Some False\<rparr>, claude_turn\<lparr>loading := Some False\<rparr>]"
    "snd round_done = [(gpt_turn, Complete), (claude_turn, Complete)]"
    "isModelLoading (fst round_done) ''openai/gpt-4'' = Some False"
    "isModelLoading (fst round_done) ''anthropic/claude-3'' = Some False"
    by (simp_all add: run)
qed

lemma replies_collide_fields:
  "messages (fst replies_collide) =
     [example_user, gpt_turn\<lparr>loading := Some False\<rparr>, claude_turn\<lparr>loading := Some False\<rparr>,
      userMessage_of 9 ''x'' (Some ''openai/gpt-4'') None, gpt_reply,
      userMessage_of 9 ''y'' (Some ''anthropic/claude-3'') None, claude_reply]"
  "snd replies_collide =
     [(gpt_turn, Complete), (claude_turn, Complete), (gpt_reply, Pending),
      (claude_reply, Pending)]"
  "isModelLoading (fst replies_collide) ''openai/gpt-4'' = Some True"
  "isModelLoading (fst replies_collide) ''anthropic/claude-3'' = Some True"
proof -
  define c1 where "c1 = step (SetModelPrompt ''openai/gpt-4'' ''x'') round_done"
  define c2 where "c2 = step (SetModelPrompt ''anthropic/claude-3'' ''y'') c1"
  define c3 where "c3 = step (Dispatch 9 (\<lambda>_. 9) (ModelArgument ''openai/gpt-4'')) c2"
  define c4 where "c4 = step (Dispatch 9 (\<lambda>_. 9) (ModelArgument ''anthropic/claude-3'')) c3"
  have run: "replies_collide = c4"
    by (simp add: replies_collide_def c1_def c2_def c3_def c4_def)
  have c2: "messages (fst c2) = messages (fst round_done)" "snd c2 = snd round_done"
    "modelPrompts (fst c2) ''openai/gpt-4'' = Some ''x''"
    "modelPrompts (fst c2) ''anthropic/claude-3'' = Some ''y''"
    by (simp_all add: c1_def c2_def step_SetModelPrompt)
  have "c3 = ((fst c2)\<lparr>modelPrompts := (modelPrompts (fst c2))(''openai/gpt-4'' \<mapsto> []),
        messages := messages (fst c2) @
          userMessage_of 9 ''x'' (Some ''openai/gpt-4'') None
            # assistantMessages_of (\<lambda>_. 9) [''openai/gpt-4''],
        isModelLoading := mark_loading [''openai/gpt-4''] (isModelLoading (fst c2))\<rparr>,
      snd c2 @ map (\<lambda>m. (m, Pending)) (assistantMessages_of (\<lambda>_. 9) [''openai/gpt-4'']))"
    unfolding c3_def by (rule step_Dispatch_per_model) (simp_all add: c2)
  then have c3: "messages (fst c3) = messages (fst round_done) @
      [userMessage_of 9 ''x'' (Some ''openai/gpt-4'') None, gpt_reply]"
    "snd c3 = snd round_done @ [(gpt_reply, Pending)]"
    "modelPrompts (fst c3) ''anthropic/claude-3'' = Some ''y''"
    "isModelLoading (fst c3) ''openai/gpt-4'' = Some True"
    by (simp_all add: c2 assistantMessages_of_def enumerate_eq_zip gpt_reply_def
        mark_loading_def)
  have "c4 = ((fst c3)\<lparr>modelPrompts := (modelPrompts (fst c3))(''anthropic/claude-3'' \<mapsto> []),
        messages := messages (fst c3) @
          userMessage_of 9 ''y'' (Some ''anthropic/claude-3'') None
            # assistantMessages_of (\<lambda>_. 9) [''anthropic/claude-3''],
        isModelLoading := mark_loading [''anthropic/claude-3''] (isModelLoading (fst c3))\<rparr>,
      snd c3 @ map (\<lambda>m. (m, Pending)) (assistantMessages_of (\<lambda>_. 9) [''anthropic/claude-3'']))"
    unfolding c4_def by (rule step_Dispatch_per_model) (simp_all add: c3)
  then have c4: "messages (fst c4) = messages (fst round_done) @
      [userMessage_of 9 ''x'' (Some ''openai/gpt-4'') None, gpt_reply,
       userMessage_of 9 ''y'' (Some ''anthropic/claude-3'') None, claude_reply]"
    "snd c4 = snd round_done @ [(gpt_reply, Pending), (claude_reply, Pending)]"
    "isModelLoading (fst c4) ''openai/gpt-4'' = Some True"
    "isModelLoading (fst c4) ''anthropic/claude-3'' = Some True"
    by (simp_all add: c3 assistantMessages_of_def enumerate_eq_zip claude_reply_def
        mark_loading_def)
  from c4 show "messages (fst replies_collide) =
     [example_user, gpt_turn\<lparr>loading := Some False\<rparr>, claude_turn\<lparr>loading := Some False\<rparr>,
      userMessage_of 9 ''x'' (Some ''openai/gpt-4'') None, gpt_reply,
      userMessage_of 9 ''y'' (Some ''anthropic/claude-3'') None, claude_reply]"
    "snd replies_collide =
     [(gpt_turn, Complete), (claude_turn, Complete), (gpt_reply, Pending),
      (claude_reply, Pending)]"
    "isModelLoading (fst replies_collide) ''openai/gpt-4'' = Some True"
    "isModelLoading (fst replies_collide) ''anthropic/claude-3'' = Some True"
    by (simp_all add: run round_done_fields)
qed

lemma claude_reply_fails_fields:
  "messages (fst claude_reply_fails) =
     [example_user, gpt_turn\<lparr>loading := Some False\<rparr>, claude_turn\<lparr>loading := Some False\<rparr>,
      userMessage_of 9 ''x'' (Some ''openai/gpt-4'') None,
      gpt_reply\<lparr>error := Some ''Status: 500'', loading := Some False\<rparr>,
      userMessage_of 9 ''y'' (Some ''anthropic/claude-3'') None, claude_reply]"
  "snd claude_reply_fails =
     [(gpt_turn, Complete), (claude_turn, Complete), (gpt_reply, Pending),
      (claude_reply, Failed)]"
  "isModelLoading (fst claude_reply_fails) ''openai/gpt-4'' = Some True"
  "isModelLoading (fst claude_reply_fails) ''anthropic/claude-3'' = Some True"
  by (simp_all add: claude_reply_fails_def step_Deliver replies_collide_fields on_fetch_def
      catch_block_def finally_block_def Let_def update_message_def truthy_def)

lemma claude_reply_streams_fields:
  "messages (fst claude_reply_streams) =
     [example_user, gpt_turn\<lparr>loading := Some False\<rparr>, claude_turn\<lparr>loading := Some False\<rparr>,
      userMessage_of 9 ''x'' (Some ''openai/gpt-4'') None,
      gpt_reply\<lparr>content := ''Hello'', loading := Some False\<rparr>,
      userMessage_of 9 ''y'' (Some ''anthropic/claude-3'') None, claude_reply]"
  "snd claude_reply_streams =
     [(gpt_turn, Complete), (claude_turn, Complete), (gpt_reply, Pending),
      (claude_reply, Complete)]"
  "isModelLoading (fst claude_reply_streams) ''openai/gpt-4'' = Some True"
  "isModelLoading (fst claude_reply_streams) ''anthropic/claude-3'' = Some True"
proof -
  define c1 where "c1 = step (Deliver 3 (Fetched (FetchResponse True 200 True))) replies_collide"
  define c2 where "c2 = step (Deliver 3 (Read (ReadChunk hello_chunk_1))) c1"
  define c3 where "c3 = step (Deliver 3 (Read (ReadChunk hello_chunk_2))) c2"
  define c4 where "c4 = step (Deliver 3 (Read (ReadChunk hello_chunk_3))) c3"
  define c5 where "c5 = step (Deliver 3 (Read ReadDone)) c4"
  let ?exs = "[(gpt_turn, Complete), (claude_turn, Complete), (gpt_reply, Pending),
      (claude_reply, Streaming)]"
  have run: "claude_reply_streams = c5"
    by (simp add: claude_reply_streams_def c1_def c2_def c3_def c4_def c5_def)
  have c1: "messages (fst c1) = messages (fst replies_collide)" "snd c1 = ?exs"
    "isModelLoading (fst c1) = isModelLoading (fst replies_collide)"
    by (simp_all add: c1_def step_Deliver replies_collide_fields on_fetch_def)
  have c2: "messages (fst c2) =
      [example_user, gpt_turn\<lparr>loading := Some False\<rparr>, claude_turn\<lparr>loading := Some False\<rparr>,
       userMessage_of 9 ''x'' (Some ''openai/gpt-4'') None,
       gpt_reply\<lparr>content := ''Hel'', loading := Some False\<rparr>,
       userMessage_of 9 ''y'' (Some ''anthropic/claude-3'') None, claude_reply]"
    "snd c2 = ?exs" "isModelLoading (fst c2) = isModelLoading (fst replies_collide)"
    by (simp_all add: c2_def step_Deliver c1 replies_collide_fields on_read_def
        process_chunk_def hello_chunk_1_lines update_message_def)
  have c3: "messages (fst c3) =
      [example_user, gpt_turn\<lparr>loading := Some False\<rparr>, claude_turn\<lparr>loading := Some False\<rparr>,
       userMessage_of 9 ''x'' (Some ''openai/gpt-4'') None,
       gpt_reply\<lparr>content := ''Hello'', loading := Some False\<rparr>,
       userMessage_of 9 ''y'' (Some ''anthropic/claude-3'') None, claude_reply]"
    "snd c3 = ?exs" "isModelLoading (fst c3) = isModelLoading (fst replies_collide)"
    by (simp_all add: c3_def step_Deliver c2 on_read_def process_chunk_def
        hello_chunk_2_lines update_message_def)
  have c4: "messages (fst c4) = messages (fst c3)"
    "snd c4 = ?exs" "isModelLoading (fst c4) = isModelLoading (fst replies_collide)"
    by (simp_all add: c4_def step_Deliver c3 on_read_def process_chunk_def
        hello_chunk_3_lines)
  have c5: "messages (fst c5) = messages (fst c3)"
    "snd c5 = [(gpt_turn, Complete), (claude_turn, Complete), (gpt_reply, Pending),
      (claude_reply, Complete)]"
    "isModelLoading (fst c5) ''openai/gpt-4'' = Some True"
    "isModelLoading (fst c5) ''anthropic/claude-3'' = Some True"
    by (simp_all add: c5_def step_Deliver c4 c3 on_read_def finally_block_def Let_def
        update_message_def truthy_def replies_collide_fields)
  from c5 c3(1) show "messages (fst claude_reply_streams) =
     [example_user, gpt_turn\<lparr>loading := Some False\<rparr>, claude_turn\<lparr>loading := Some False\<rparr>,
      userMessage_of 9 ''x'' (Some ''openai/gpt-4'') None,
      gpt_reply\<lparr>content := ''Hello'', loading := Some False\<rparr>,
      userMessage_of 9 ''y'' (Some ''anthropic/claude-3'') None, claude_reply]"
    "snd claude_reply_streams =
     [(gpt_turn, Complete), (claude_turn, Complete), (gpt_reply, Pending),
      (claude_reply, Complete)]"
    "isModelLoading (fst claude_reply_streams) ''openai/gpt-4'' = Some True"
    "isModelLoading (fst claude_reply_streams) ''anthropic/claude-3'' = Some True"
    by (simp_all add: run)
qed

section \<open>Conversation Store\<close>

text \<open>
  C1: on a log whose user turns satisfy the scope invariant of the data model, the
  display projection for a model \<open>M\<close> selects exactly the turns that the rule of the
  specification selects (assistant turns of \<open>M\<close>; user turns whose model is \<open>M\<close>, or
  whose target models contain \<open>M\<close>, or with neither field set); the history built for
  the request of a placeholder of model \<open>M\<close> selects by the same rule and leaves out
  the turns whose id is the placeholder's id, which, when the ids of the log are
  distinct, is the placeholder itself and nothing else.
\<close>

theorem C1_projection_rule:
  assumes "list_all scope_wf (messages s)"
  shows "getHistoryForModelDisplay M s = filter (spec_selects (arrays s) M) (messages s) \<and>
         (model msg = Some M \<longrightarrow>
            history_turns msg s =
              filter (\<lambda>t. spec_selects (arrays s) M t \<and> id' t \<noteq> id' msg) (messages s)) \<and>
         (model msg = Some M \<and> distinct (map id' (messages s)) \<and>
          i < length (messages s) \<and> messages s ! i = msg \<longrightarrow>
            history_turns msg s =
              filter (spec_selects (arrays s) M)
                (take i (messages s) @ drop (Suc i) (messages s)))"
proof -
  from assms have wf: "scope_wf t" if "t \<in> set (messages s)" for t
    using that by (simp add: list_all_iff)
  have display: "getHistoryForModelDisplay M s = filter (spec_selects (arrays s) M) (messages s)"
    unfolding getHistoryForModelDisplay_def
    by (rule filter_cong) (simp_all add: wf display_filter_spec)
  have hist: "history_turns msg s =
      filter (\<lambda>t. spec_selects (arrays s) M t \<and> id' t \<noteq> id' msg) (messages s)"
    if "model msg = Some M"
    unfolding history_turns_def
    by (rule filter_cong) (simp_all add: wf that history_filter_spec)
  have single: "history_turns msg s =
      filter (spec_selects (arrays s) M) (take i (messages s) @ drop (Suc i) (messages s))"
    if "model msg = Some M" "distinct (map id' (messages s))" "i < length (messages s)"
      "messages s ! i = msg"
    using hist [OF that(1)] filter_distinct_drop [OF that(2,3), of "spec_selects (arrays s) M"]
      that(4) by simp
  from display hist single show ?thesis by blast
qed

theorem C1_projection_rule_witness:
  "list_all scope_wf (messages (fst example_config)) \<and>
   distinct (map id' (messages (fst example_config))) \<and>
   messages (fst example_config) ! 1 = gpt_turn \<and>
   model gpt_turn = Some ''openai/gpt-4'' \<and>
   getHistoryForModelDisplay ''openai/gpt-4'' (fst example_config) = [example_user, gpt_turn] \<and>
   history_turns gpt_turn (fst example_config) = [example_user]"
proof -
  note t = C1_projection_rule [OF example_wf, of "''openai/gpt-4''" gpt_turn 1]
  have i: "messages (fst example_config) ! 1 = gpt_turn"
    by (simp add: example_config_fields)
  from t have "getHistoryForModelDisplay ''openai/gpt-4'' (fst example_config) =
      filter (spec_selects (arrays (fst example_config)) ''openai/gpt-4'')
        (messages (fst example_config))"
    by simp
  then have d: "getHistoryForModelDisplay ''openai/gpt-4'' (fst example_config) =
      [example_user, gpt_turn]"
    by (simp add: example_config_fields spec_selects_def)
  from t example_distinct i have "history_turns gpt_turn (fst example_config) =
      filter (spec_selects (arrays (fst example_config)) ''openai/gpt-4'')
        (take 1 (messages (fst example_config)) @ drop (Suc 1) (messages (fst example_config)))"
    by (simp add: example_config_fields)
  then have h: "history_turns gpt_turn (fst example_config) = [example_user]"
    by (simp add: example_config_fields spec_selects_def)
  from example_wf example_distinct i d h show ?thesis by simp
qed

text \<open>
  C10: the history sent upstream is the list of the pairs of role and content of the
  selected turns, it is the \<open>messages\<close> field of the request, and every assistant turn
  of the same model other than the placeholder is in it with its content as it is,
  whatever its \<open>loading\<close> and \<open>error\<close> fields hold.
\<close>

theorem C10_history_role_content:
  "history msg s = map (\<lambda>m. (role m, content m)) (history_turns msg s) \<and>
   req_messages (request_of msg s) = history msg s \<and>
   (\<forall>t \<in> set (messages s).
      role t = Assistant \<and> model t = model msg \<and> id' t \<noteq> id' msg \<longrightarrow>
        t \<in> set (history_turns msg s) \<and> (Assistant, content t) \<in> set (history msg s))"
proof -
  have "t \<in> set (history_turns msg s)"
    if "t \<in> set (messages s)" "role t = Assistant" "model t = model msg" "id' t \<noteq> id' msg"
    for t
    using that by (simp add: history_turns_def history_filter_def)
  moreover have "(role t, content t) \<in> set (history msg s)" if "t \<in> set (history_turns msg s)"
    for t
    using that by (auto simp: history_def)
  ultimately have "t \<in> set (history_turns msg s) \<and> (Assistant, content t) \<in> set (history msg s)"
    if "t \<in> set (messages s)" "role t = Assistant" "model t = model msg" "id' t \<noteq> id' msg"
    for t
    using that by metis
  then show ?thesis
    by (simp add: history_def request_of_def)
qed

theorem C10_history_role_content_witness:
  "error (messages second_round ! 1) = Some ''Status: 500'' \<and>
   loading (messages second_round ! 2) = Some True \<and>
   (Assistant, content (messages second_round ! 1))
     \<in> set (history (placeholder 8 0 ''openai/gpt-4'') second_round) \<and>
   (Assistant, content (messages second_round ! 2))
     \<in> set (history (placeholder 8 1 ''anthropic/claude-3'') second_round) \<and>
   history (placeholder 8 0 ''openai/gpt-4'') second_round =
     [(User, ''Hi''), (Assistant, []), (User, ''again'')] \<and>
   history (placeholder 8 1 ''anthropic/claude-3'') second_round =
     [(User, ''Hi''), (Assistant, []), (User, ''again'')]"
proof -
  let ?g = "placeholder 8 0 ''openai/gpt-4''" and ?c = "placeholder 8 1 ''anthropic/claude-3''"
  note tg = C10_history_role_content [of ?g second_round]
  note tc = C10_history_role_content [of ?c second_round]
  have e: "error (messages second_round ! 1) = Some ''Status: 500''"
    "loading (messages second_round ! 2) = Some True"
    by (simp_all add: second_round_messages)
  from tg have "\<forall>t \<in> set (messages second_round).
      role t = Assistant \<and> model t = model ?g \<and> id' t \<noteq> id' ?g \<longrightarrow>
        (Assistant, content t) \<in> set (history ?g second_round)"
    by blast
  from this [rule_format, of "messages second_round ! 1"]
  have g: "(Assistant, content (messages second_round ! 1)) \<in> set (history ?g second_round)"
    by (simp add: second_round_messages placeholder_def)
  from tc have "\<forall>t \<in> set (messages second_round).
      role t = Assistant \<and> model t = model ?c \<and> id' t \<noteq> id' ?c \<longrightarrow>
        (Assistant, content t) \<in> set (history ?c second_round)"
    by blast
  from this [rule_format, of "messages second_round ! 2"]
  have c: "(Assistant, content (messages second_round ! 2)) \<in> set (history ?c second_round)"
    by (simp add: second_round_messages placeholder_def)
  have hg: "history ?g second_round = [(User, ''Hi''), (Assistant, []), (User, ''again'')]"
    by (simp add: history_def history_turns_def history_filter_def second_round_messages
        placeholder_def userMessage_of_def truthy_def array_includes_def)
  have hc: "history ?c second_round = [(User, ''Hi''), (Assistant, []), (User, ''again'')]"
    by (simp add: history_def history_turns_def history_filter_def second_round_messages
        placeholder_def userMessage_of_def truthy_def array_includes_def)
  from e g c hg hc show ?thesis by simp
qed

section \<open>Fan-Out Dispatcher\<close>

text \<open>
  C2: a dispatch whose prompt is not empty after trimming and that has at least one
  target appends to the log exactly one user turn with the prompt as content, followed
  by one placeholder per target in order (assistant, empty content, loading, model the
  target), and changes no turn that was there; the exchanges it launches are those
  placeholders, and each request is built from the log that already holds all of
  them.
\<close>

theorem C2_dispatch_appends:
  assumes "trim (currentPrompt_of arg s) \<noteq> []"
    and "activeModels_of arg s = targets" and "targets \<noteq> []"
    and "sendPrompt tu ta arg s = (s', launched)"
  shows "length (messages s') = length (messages s) + 1 + length targets \<and>
         take (length (messages s)) (messages s') = messages s \<and>
         role (messages s' ! length (messages s)) = User \<and>
         content (messages s' ! length (messages s)) = currentPrompt_of arg s \<and>
         (\<forall>k<length targets.
            messages s' ! (length (messages s) + 1 + k) =
              \<lparr>id' = string_of_nat (ta k) @ ''-'' @ string_of_nat k, role = Assistant,
               content = [], model = Some (targets ! k), targetModels = None,
               loading = Some True, error = None\<rparr>) \<and>
         map fst launched = drop (length (messages s) + 1) (messages s') \<and>
         map snd launched = map (\<lambda>msg. request_of msg s') (map fst launched)"
proof -
  let ?u = "userMessage_of tu (currentPrompt_of arg s) (resolvedTargetId_of arg)
              (if isGlobalFixed_of arg then Some (next_ref s) else None)"
  let ?ps = "assistantMessages_of ta targets"
  from assms have nonempty: "activeModels_of arg s \<noteq> []" by simp
  have msgs: "messages s' = messages s @ ?u # ?ps"
    using sendPrompt_messages [OF assms(1) nonempty, of tu ta] assms(2,4) by simp
  have launched: "launched = map (\<lambda>msg. (msg, request_of msg s')) ?ps"
    using sendPrompt_launched [OF assms(1) nonempty, of tu ta] assms(2,4) by simp
  have len: "length (messages s') = length (messages s) + 1 + length targets"
    by (simp add: msgs)
  have old: "take (length (messages s)) (messages s') = messages s"
    by (simp add: msgs)
  have user: "messages s' ! length (messages s) = ?u"
    by (simp add: msgs)
  have placeholders: "messages s' ! (length (messages s) + 1 + k) =
      \<lparr>id' = string_of_nat (ta k) @ ''-'' @ string_of_nat k, role = Assistant,
       content = [], model = Some (targets ! k), targetModels = None,
       loading = Some True, error = None\<rparr>" if "k < length targets" for k
    using that by (simp add: msgs nth_append assistantMessages_of_nth placeholder_def)
  have fst_launched: "map fst launched = drop (length (messages s) + 1) (messages s')"
    by (simp add: launched msgs comp_def)
  have snd_launched: "map snd launched = map (\<lambda>msg. request_of msg s') (map fst launched)"
    by (simp add: launched comp_def)
  from len old user placeholders fst_launched snd_launched show ?thesis
    by (simp add: userMessage_of_def)
qed

theorem C2_dispatch_appends_witness:
  "trim (currentPrompt_of NoArgument (fst example_start)) \<noteq> [] \<and>
   activeModels_of NoArgument (fst example_start) = [''openai/gpt-4'', ''anthropic/claude-3''] \<and>
   length (messages (fst example_config)) = 3 \<and>
   role (messages (fst example_config) ! 0) = User \<and>
   content (messages (fst example_config) ! 0) = ''Hi'' \<and>
   messages (fst example_config) ! 1 =
     \<lparr>id' = ''7-0'', role = Assistant, content = [], model = Some ''openai/gpt-4'',
      targetModels = None, loading = Some True, error = None\<rparr> \<and>
   messages (fst example_config) ! 2 =
     \<lparr>id' = ''7-1'', role = Assistant, content = [], model = Some ''anthropic/claude-3'',
      targetModels = None, loading = Some True, error = None\<rparr> \<and>
   map fst (snd (sendPrompt 7 (\<lambda>_. 7) NoArgument (fst example_start))) =
     drop 1 (messages (fst example_config))"
proof -
  have h0: "currentPrompt_of NoArgument (fst example_start) = ''Hi''"
    by (simp add: currentPrompt_of_def example_global example_start_fields)
  have h1: "trim (currentPrompt_of NoArgument (fst example_start)) \<noteq> []"
    by (simp add: h0)
  have h2: "activeModels_of NoArgument (fst example_start) =
      [''openai/gpt-4'', ''anthropic/claude-3'']"
    by (simp add: activeModels_of_def example_global example_start_fields)
  have h3: "[''openai/gpt-4'', ''anthropic/claude-3''] \<noteq> []" by simp
  note t = C2_dispatch_appends [OF h1 h2 h3 example_sendPrompt_pair]
  then have q: "\<forall>k<2. messages (fst example_config) ! (Suc k) =
      \<lparr>id' = ''7'' @ ''-'' @ string_of_nat k, role = Assistant, content = [],
       model = Some ([''openai/gpt-4'', ''anthropic/claude-3''] ! k), targetModels = None,
       loading = Some True, error = None\<rparr>"
    by (simp add: example_start_fields)
  from q [rule_format, of 0] q [rule_format, of "Suc 0"]
  have p: "messages (fst example_config) ! 1 =
      \<lparr>id' = ''7-0'', role = Assistant, content = [], model = Some ''openai/gpt-4'',
       targetModels = None, loading = Some True, error = None\<rparr>"
    "messages (fst example_config) ! 2 =
      \<lparr>id' = ''7-1'', role = Assistant, content = [], model = Some ''anthropic/claude-3'',
       targetModels = None, loading = Some True, error = None\<rparr>"
    by (simp_all add: numeral_2_eq_2)
  from t have "length (messages (fst example_config)) = 3"
    "role (messages (fst example_config) ! 0) = User"
    "content (messages (fst example_config) ! 0) = ''Hi''"
    "map fst (snd (sendPrompt 7 (\<lambda>_. 7) NoArgument (fst example_start))) =
       drop 1 (messages (fst example_config))"
    by (simp_all add: example_start_fields h0)
  with p h1 h2 show ?thesis by simp
qed

text \<open>
  C5: the user turn of a global dispatch refers to a fresh array that holds the
  selection of that moment; whatever changes of the selection follow, the log, the
  turn's reference and the contents of that array stay as they are, the selection
  never becomes that array, and the turn stays in the display projection of every
  model that was selected at dispatch time.
\<close>

theorem C5_targetModels_snapshot:
  assumes "isGlobalFixed_of arg" and "trim (prompt s) \<noteq> []"
    and "arrays s (selectedModels s) = sel" and "sel \<noteq> []"
    and "selectedModels s < next_ref s"
    and "sendPrompt tu ta arg s = (s', launched)"
    and "list_all selection_change acts"
    and "run acts (s', exs) = (s'', exs')"
  shows "targetModels (messages s' ! length (messages s)) = Some (next_ref s) \<and>
         arrays s' (next_ref s) = sel \<and>
         messages s'' = messages s' \<and>
         arrays s'' (next_ref s) = sel \<and>
         selectedModels s'' \<noteq> next_ref s \<and>
         (\<forall>M \<in> set sel.
            messages s' ! length (messages s) \<in> set (getHistoryForModelDisplay M s''))"
proof -
  let ?u = "messages s' ! length (messages s)"
  from assms(1,2) have p: "trim (currentPrompt_of arg s) \<noteq> []"
    by (simp add: currentPrompt_of_def)
  from assms(1,3,4) have a: "activeModels_of arg s \<noteq> []"
    by (simp add: activeModels_of_def)
  have msgs: "messages s' = messages s @
      userMessage_of tu (currentPrompt_of arg s) (resolvedTargetId_of arg) (Some (next_ref s))
      # assistantMessages_of ta (activeModels_of arg s)"
    using sendPrompt_messages [OF p a, of tu ta] assms(1,6) by simp
  then have u: "?u = userMessage_of tu (currentPrompt_of arg s) (resolvedTargetId_of arg)
      (Some (next_ref s))"
    by simp
  have store: "arrays s' (next_ref s) = sel" "next_ref s < next_ref s'"
    "selectedModels s' \<noteq> next_ref s"
    using sendPrompt_global_store [OF assms(1) p a, of tu ta] assms(3,5,6) by simp_all
  from selection_changes_frame [OF assms(7) store(2,3), of exs] assms(8)
  have later: "messages s'' = messages s'" "arrays s'' (next_ref s) = arrays s' (next_ref s)"
    "selectedModels s'' \<noteq> next_ref s"
    by simp_all
  have member: "?u \<in> set (messages s'')"
    by (simp add: later msgs)
  have "\<not> truthy (model ?u)"
    using assms(1) by (simp add: u userMessage_of_def isGlobalFixed_of_def)
  then have visible: "display_filter (arrays s'') M ?u" if "M \<in> set sel" for M
    using that later(2) store(1)
    by (simp add: display_filter_def u userMessage_of_def array_includes_def)
  from u store(1) later member visible show ?thesis
    by (simp add: getHistoryForModelDisplay_def userMessage_of_def)
qed

theorem C5_targetModels_snapshot_witness:
  "isGlobalFixed_of NoArgument \<and>
   trim (prompt (fst example_start)) \<noteq> [] \<and>
   arrays (fst example_start) (selectedModels (fst example_start)) =
     [''openai/gpt-4'', ''anthropic/claude-3''] \<and>
   selectedModels (fst example_start) < next_ref (fst example_start) \<and>
   list_all selection_change example_toggles \<and>
   arrays (fst (run example_toggles example_config))
     (selectedModels (fst (run example_toggles example_config))) = [''c''] \<and>
   targetModels (messages (fst example_config) ! 0) = Some 2 \<and>
   arrays (fst (run example_toggles example_config)) 2 =
     [''openai/gpt-4'', ''anthropic/claude-3''] \<and>
   messages (fst example_config) ! 0
     \<in> set (getHistoryForModelDisplay ''openai/gpt-4'' (fst (run example_toggles example_config))) \<and>
   messages (fst example_config) ! 0
     \<in> set (getHistoryForModelDisplay ''anthropic/claude-3''
              (fst (run example_toggles example_config)))"
proof -
  have h1: "isGlobalFixed_of NoArgument" by (rule example_global)
  have h2: "trim (prompt (fst example_start)) \<noteq> []" by (simp add: example_start_fields)
  have h3: "arrays (fst example_start) (selectedModels (fst example_start)) =
      [''openai/gpt-4'', ''anthropic/claude-3'']"
    by (simp add: example_start_fields)
  have h4: "[''openai/gpt-4'', ''anthropic/claude-3''] \<noteq> []" by simp
  have h5: "selectedModels (fst example_start) < next_ref (fst example_start)"
    by (simp add: example_start_fields)
  have h6: "list_all selection_change example_toggles"
    by (simp add: example_toggles_def selection_change_def)
  have h7: "run example_toggles (fst example_config, snd example_config) =
      (fst (run example_toggles example_config), snd (run example_toggles example_config))"
    by simp
  have sel: "arrays (fst (run example_toggles example_config))
      (selectedModels (fst (run example_toggles example_config))) = [''c'']"
    by (simp add: example_toggles_def step_Toggle toggleModel_def new_array_def Let_def
        example_config_fields)
  note t = C5_targetModels_snapshot [OF h1 h2 h3 h4 h5 example_sendPrompt_pair h6 h7]
  from t h1 h2 h3 h5 h6 sel show ?thesis
    by (simp add: example_start_fields)
qed

text \<open>
  C9: two dispatches that read the same value from the clock give their turns the
  same ids: whatever the reading \<open>t\<close>, replying in panel \<open>a\<close> and then in panel \<open>b\<close>
  at \<open>t\<close> yields a log whose ids are \<open>t\<close>, \<open>t-0\<close>, \<open>t\<close>, \<open>t-0\<close>, which are not
  pairwise distinct.
\<close>

theorem C9_same_reading_same_ids:
  "map id' (messages (fst (run [Dispatch t (\<lambda>_. t) (ModelArgument ''a''),
                                Dispatch t (\<lambda>_. t) (ModelArgument ''b'')] collision_start))) =
     [string_of_nat t, string_of_nat t @ ''-0'', string_of_nat t, string_of_nat t @ ''-0''] \<and>
   \<not> distinct (map id' (messages (fst (run [Dispatch t (\<lambda>_. t) (ModelArgument ''a''),
                                Dispatch t (\<lambda>_. t) (ModelArgument ''b'')] collision_start))))"
proof -
  let ?s1 = "fst (sendPrompt t (\<lambda>_. t) (ModelArgument ''a'') (fst collision_start))"
  have s1: "messages ?s1 = [userMessage_of t ''x'' (Some ''a'') None, placeholder t 0 ''a'']"
    "modelPrompts ?s1 ''b'' = Some ''y''"
    by (simp_all add: sendPrompt_per_model [where p = "''x''"] collision_start_fields
        assistantMessages_of_def)
  have "messages (fst (sendPrompt t (\<lambda>_. t) (ModelArgument ''b'') ?s1)) =
      [userMessage_of t ''x'' (Some ''a'') None, placeholder t 0 ''a'',
       userMessage_of t ''y'' (Some ''b'') None, placeholder t 0 ''b'']"
    by (simp add: sendPrompt_per_model [where p = "''y''"] s1 assistantMessages_of_def)
  then show ?thesis
    by (simp add: step_Dispatch_fst userMessage_of_def placeholder_def)
qed

section \<open>Stream Consumer\<close>

text \<open>
  C4: when a line of a chunk is the sentinel \<open>data: [DONE]\<close> and no line before it
  is, the lines after it are not processed; a read that delivers a chunk, with or
  without the sentinel, leaves the exchange streaming, and only the end of the
  stream reported by the transport completes it, through the cleanup.
\<close>

theorem C4_done_breaks_inner_loop_only:
  assumes "list_all (\<lambda>l. l \<noteq> ''data: [DONE]'') pre"
  shows "process_lines msg (pre @ ''data: [DONE]'' # post) msgs = process_lines msg pre msgs \<and>
         exchange_step msg Streaming (Read (ReadChunk chunk)) s =
           (process_chunk msg chunk s, Streaming) \<and>
         exchange_step msg Streaming (Read ReadDone) s = (finally_block msg s, Complete)"
  using sentinel_stops_lines [OF assms] by (simp add: on_read_def)

theorem C4_done_breaks_inner_loop_only_witness:
  \<open>list_all (\<lambda>l. l \<noteq> ''data: [DONE]'') [] \<and>
   process_lines gpt_turn (split_on CHR 0x0A done_chunk) (messages (fst example_config)) =
     messages (fst example_config) \<and>
   content (messages (fst done_run) ! 1) = ''Y'' \<and>
   snd done_run ! 0 = (gpt_turn, Streaming)\<close>
proof -
  let ?post = \<open>[''data: {"choices":[{"delta":{"content":"X"}}]}'', '''']\<close>
  have h: "list_all (\<lambda>l. l \<noteq> ''data: [DONE]'') []" by simp
  note t = C4_done_breaks_inner_loop_only [OF h, of gpt_turn ?post]
  from t [of "messages (fst example_config)"]
  have a: "process_lines gpt_turn (split_on CHR 0x0A done_chunk) (messages (fst example_config)) =
      messages (fst example_config)"
    by (simp only: done_chunk_lines process_lines.simps(1))
  let ?c1 = "step (Deliver 0 (Fetched (FetchResponse True 200 True))) example_config"
  have c1: "?c1 = (fst example_config, [(gpt_turn, Streaming), (claude_turn, Pending)])"
    by (simp add: step_Deliver example_config_exchanges on_fetch_def)
  let ?c2 = "step (Deliver 0 (Read (ReadChunk done_chunk))) ?c1"
  have c2: "?c2 = (process_chunk gpt_turn done_chunk (fst example_config),
      [(gpt_turn, Streaming), (claude_turn, Pending)])"
    using t [of "messages (fst example_config)" done_chunk "fst example_config"]
    by (simp add: c1)
  have m2: "messages (process_chunk gpt_turn done_chunk (fst example_config)) =
      messages (fst example_config)"
    by (simp add: process_chunk_def a)
  let ?c3 = "step (Deliver 0 (Read (ReadChunk after_chunk))) ?c2"
  have c3: "?c3 = (process_chunk gpt_turn after_chunk
        (process_chunk gpt_turn done_chunk (fst example_config)),
      [(gpt_turn, Streaming), (claude_turn, Pending)])"
    using t [of "messages (fst example_config)" after_chunk
        "process_chunk gpt_turn done_chunk (fst example_config)"]
    by (simp add: c2)
  have dr: "done_run = (process_chunk gpt_turn after_chunk
        (process_chunk gpt_turn done_chunk (fst example_config)),
      [(gpt_turn, Streaming), (claude_turn, Pending)])"
    using c3 by (simp add: done_run_def)
  have "content (messages (fst done_run) ! 1) = ''Y''"
    "snd done_run ! 0 = (gpt_turn, Streaming)"
    by (simp_all add: dr process_chunk_def [of gpt_turn after_chunk] after_chunk_lines m2
        example_config_fields update_message_def)
  with h a show ?thesis by simp
qed

section \<open>An exchange in a log of distinct ids\<close>

text \<open>
  While the ids of the log and of the exchanges are distinct, an exchange finds its own
  turn: a failed request is recorded on that turn and leaves the others alone, and the
  stream of the scenario leaves on it \<open>Hello\<close>, whatever the other exchanges receive in
  between.
\<close>

lemma failure_is_local_with_distinct_ids:
  assumes "distinct (map id' (messages s))" and "i < length (messages s)"
    and "distinct (map (id' \<circ> fst) exs)" and "k < length exs"
    and "exs ! k = (msg, Pending)"
    and "id' (messages s ! i) = id' msg" and "content (messages s ! i) = []"
    and "list_all (foreign_to k) sched"
    and "run sched (s, exs) = (s1, exs1)"
    and "\<not> ok \<or> \<not> has_reader"
    and "step (Deliver k (Fetched (FetchResponse ok status has_reader))) (s1, exs1) = (s2, exs2)"
  shows "messages s2 ! i =
           (messages s ! i)\<lparr>error := Some (if \<not> ok then ''Status: '' @ string_of_nat status
                                             else ''No reader available''),
                             loading := Some False\<rparr> \<and>
         content (messages s2 ! i) = [] \<and>
         length (messages s2) = length (messages s) \<and>
         length (messages s1) = length (messages s) \<and>
         (\<forall>j < length (messages s). j \<noteq> i \<longrightarrow> messages s2 ! j = messages s1 ! j) \<and>
         exs2 ! k = (msg, Failed)"
proof -
  let ?e = "if \<not> ok then ''Status: '' @ string_of_nat status else ''No reader available''"
  from assms(5,6) have idk: "id' (messages s ! i) = id' (fst (exs ! k))" by simp
  from foreign_run_frame [OF assms(8) assms(3,4) idk assms(9)]
  have ids: "map id' (messages s1) = map id' (messages s)"
    and same: "messages s1 ! i = messages s ! i"
    and exs1: "map fst exs1 = map fst exs" "exs1 ! k = exs ! k"
    by simp_all
  from ids have len: "length (messages s1) = length (messages s)" by (metis length_map)
  from exs1(1) have klen: "k < length exs1" using assms(4) by (metis length_map)
  have d1: "distinct (map id' (messages s1))" "i < length (messages s1)"
    "id' (messages s1 ! i) = id' msg"
    using assms(1,2,6) ids len same by simp_all
  have "on_fetch msg (FetchResponse ok status has_reader) s1 =
      (finally_block msg (catch_block msg ?e s1), Failed)"
    using assms(10) by (auto simp: on_fetch_def)
  then have step: "s2 = finally_block msg (catch_block msg ?e s1)"
    "exs2 = exs1[k := (msg, Failed)]"
    using assms(11) klen exs1(2) assms(5) by simp_all
  have msgs2: "messages s2 =
      (messages s1)[i := (messages s1 ! i)\<lparr>error := Some ?e, loading := Some False\<rparr>]"
    unfolding step(1) by (rule failed_at [OF d1])
  show ?thesis
    using msgs2 d1(2) same assms(7) klen len by (simp add: step(2))
qed

lemma failure_is_local_example:
  "distinct (map id' (messages (fst example_config))) \<and>
   distinct (map (id' \<circ> fst) (snd example_config)) \<and>
   snd example_config ! 1 = (claude_turn, Pending) \<and>
   id' (messages (fst example_config) ! 2) = id' claude_turn \<and>
   content (messages (fst example_config) ! 2) = [] \<and>
   list_all (foreign_to 1) gpt_first_delta \<and>
   messages (fst (step claude_fails (run gpt_first_delta example_config))) ! 2 =
     claude_turn\<lparr>error := Some ''Status: 500'', loading := Some False\<rparr> \<and>
   messages (fst (step claude_fails (run gpt_first_delta example_config))) ! 1 =
     messages (fst (run gpt_first_delta example_config)) ! 1 \<and>
   snd (step claude_fails (run gpt_first_delta example_config)) ! 1 = (claude_turn, Failed)"
proof -
  let ?c1 = "run gpt_first_delta example_config"
  let ?c2 = "step claude_fails ?c1"
  have h2: "2 < length (messages (fst example_config))"
    and h4: "1 < length (snd example_config)"
    and h5: "snd example_config ! 1 = (claude_turn, Pending)"
    and h6: "id' (messages (fst example_config) ! 2) = id' claude_turn"
    and h7: "content (messages (fst example_config) ! 2) = []"
    by (simp_all add: example_config_fields example_config_exchanges)
  have h8: "list_all (foreign_to 1) gpt_first_delta"
    by (simp add: gpt_first_delta_def foreign_to_def)
  have h9: "run gpt_first_delta (fst example_config, snd example_config) = (fst ?c1, snd ?c1)"
    by simp
  have h10: "\<not> False \<or> \<not> True" by simp
  have h11: "step (Deliver 1 (Fetched (FetchResponse False 500 True))) (fst ?c1, snd ?c1) =
      (fst ?c2, snd ?c2)"
    by (simp add: claude_fails_def)
  note t = failure_is_local_with_distinct_ids [OF example_distinct h2 example_exchange_ids h4 h5 h6 h7 h8 h9
      h10 h11]
  have len: "1 < length (messages (fst example_config))"
    by (simp add: example_config_fields)
  from t have "messages (fst ?c2) ! 2 =
      claude_turn\<lparr>error := Some ''Status: 500'', loading := Some False\<rparr>"
    "snd ?c2 ! 1 = (claude_turn, Failed)"
    by (simp_all add: example_config_fields)
  moreover from t len have "messages (fst ?c2) ! 1 = messages (fst ?c1) ! 1"
    by simp
  ultimately show ?thesis
    using example_distinct example_exchange_ids h5 h6 h7 h8 by simp
qed

lemma hello_stream_with_distinct_ids:
  assumes "linked i k msg Pending c"
    and "content (messages (fst c) ! i) = []" and "error (messages (fst c) ! i) = None"
    and "list_all (foreign_to k) a0" and "list_all (foreign_to k) a1"
    and "list_all (foreign_to k) a2" and "list_all (foreign_to k) a3"
    and "list_all (foreign_to k) a4"
    and "c' = run (a0 @ Deliver k (Fetched (FetchResponse True status True))
                 # a1 @ Deliver k (Read (ReadChunk hello_chunk_1))
                 # a2 @ Deliver k (Read (ReadChunk hello_chunk_2))
                 # a3 @ Deliver k (Read (ReadChunk hello_chunk_3))
                 # a4 @ [Deliver k (Read ReadDone)]) c"
  shows "content (messages (fst c') ! i) = ''Hello'' \<and>
         loading (messages (fst c') ! i) = Some False \<and>
         error (messages (fst c') ! i) = None \<and>
         snd c' ! k = (msg, Complete)"
proof -
  let ?e0 = "Fetched (FetchResponse True status True)"
  let ?e1 = "Read (ReadChunk hello_chunk_1)"
  let ?e2 = "Read (ReadChunk hello_chunk_2)"
  let ?e3 = "Read (ReadChunk hello_chunk_3)"
  let ?e4 = "Read ReadDone"
  define c0 where "c0 = run (a0 @ [Deliver k ?e0]) c"
  define c1 where "c1 = run (a1 @ [Deliver k ?e1]) c0"
  define c2 where "c2 = run (a2 @ [Deliver k ?e2]) c1"
  define c3 where "c3 = run (a3 @ [Deliver k ?e3]) c2"
  define c4 where "c4 = run (a4 @ [Deliver k ?e4]) c3"
  have "c' = run ((a0 @ [Deliver k ?e0]) @ (a1 @ [Deliver k ?e1]) @ (a2 @ [Deliver k ?e2])
      @ (a3 @ [Deliver k ?e3]) @ (a4 @ [Deliver k ?e4])) c"
    by (simp add: assms(9))
  then have c': "c' = c4"
    unfolding c0_def c1_def c2_def c3_def c4_def run_append by simp
  have "linked i k msg Streaming c0 \<and> messages (fst c0) ! i = messages (fst c) ! i"
    unfolding c0_def
    by (rule own_step_after_foreign [OF assms(1,4)])
       (simp_all add: fetched_ok_effect)
  then have s0: "linked i k msg Streaming c0" "messages (fst c0) ! i = messages (fst c) ! i"
    by simp_all
  have "linked i k msg Streaming c1 \<and>
      messages (fst c1) ! i =
       (messages (fst c0) ! i)\<lparr>content := content (messages (fst c0) ! i) @ ''Hel'',
                                 loading := Some False\<rparr>"
    unfolding c1_def
    by (rule own_step_after_foreign [OF s0(1) assms(5)])
       (simp_all add: read_chunk_effect hello_chunk_1_lines)
  then have s1: "linked i k msg Streaming c1"
    "messages (fst c1) ! i =
       (messages (fst c0) ! i)\<lparr>content := content (messages (fst c0) ! i) @ ''Hel'',
                                 loading := Some False\<rparr>"
    by simp_all
  have "linked i k msg Streaming c2 \<and>
      messages (fst c2) ! i =
       (messages (fst c1) ! i)\<lparr>content := content (messages (fst c1) ! i) @ ''lo'',
                                 loading := Some False\<rparr>"
    unfolding c2_def
    by (rule own_step_after_foreign [OF s1(1) assms(6)])
       (simp_all add: read_chunk_effect hello_chunk_2_lines)
  then have s2: "linked i k msg Streaming c2"
    "messages (fst c2) ! i =
       (messages (fst c1) ! i)\<lparr>content := content (messages (fst c1) ! i) @ ''lo'',
                                 loading := Some False\<rparr>"
    by simp_all
  have "linked i k msg Streaming c3 \<and> messages (fst c3) ! i = messages (fst c2) ! i"
    unfolding c3_def
    by (rule own_step_after_foreign [OF s2(1) assms(7)])
       (simp_all add: read_chunk_effect hello_chunk_3_lines update_message_same)
  then have s3: "linked i k msg Streaming c3" "messages (fst c3) ! i = messages (fst c2) ! i"
    by simp_all
  have "linked i k msg Complete c4 \<and>
      messages (fst c4) ! i = (messages (fst c3) ! i)\<lparr>loading := Some False\<rparr>"
    unfolding c4_def
    by (rule own_step_after_foreign [OF s3(1) assms(8)])
       (simp_all add: read_done_effect)
  then have s4: "linked i k msg Complete c4"
    "messages (fst c4) ! i = (messages (fst c3) ! i)\<lparr>loading := Some False\<rparr>"
    by simp_all
  from s4(1) have "snd c4 ! k = (msg, Complete)" by (simp add: linked_def)
  with s0(2) s1(2) s2(2) s3(2) s4(2) assms(2,3) show ?thesis
    by (simp add: c')
qed

lemma hello_stream_example:
  "linked 1 0 gpt_turn Pending example_config \<and>
   content (messages (fst example_config) ! 1) = [] \<and>
   error (messages (fst example_config) ! 1) = None \<and>
   list_all (foreign_to 0) [claude_fails] \<and>
   content (messages (fst (run (Deliver 0 (Fetched (FetchResponse True 200 True))
                 # [claude_fails] @ Deliver 0 (Read (ReadChunk hello_chunk_1))
                 # Deliver 0 (Read (ReadChunk hello_chunk_2))
                 # Deliver 0 (Read (ReadChunk hello_chunk_3))
                 # [Deliver 0 (Read ReadDone)]) example_config)) ! 1) = ''Hello'' \<and>
   loading (messages (fst (run (Deliver 0 (Fetched (FetchResponse True 200 True))
                 # [claude_fails] @ Deliver 0 (Read (ReadChunk hello_chunk_1))
                 # Deliver 0 (Read (ReadChunk hello_chunk_2))
                 # Deliver 0 (Read (ReadChunk hello_chunk_3))
                 # [Deliver 0 (Read ReadDone)]) example_config)) ! 1) = Some False \<and>
   error (messages (fst (run (Deliver 0 (Fetched (FetchResponse True 200 True))
                 # [claude_fails] @ Deliver 0 (Read (ReadChunk hello_chunk_1))
                 # Deliver 0 (Read (ReadChunk hello_chunk_2))
                 # Deliver 0 (Read (ReadChunk hello_chunk_3))
                 # [Deliver 0 (Read ReadDone)]) example_config)) ! 1) = None"
proof -
  have l: "linked 1 0 gpt_turn Pending example_config"
    by (simp add: linked_def example_config_fields example_config_exchanges)
  have c: "content (messages (fst example_config) ! 1) = []"
    and e: "error (messages (fst example_config) ! 1) = None"
    by (simp_all add: example_config_fields)
  have n: "list_all (foreign_to 0) []" by simp
  have f: "list_all (foreign_to 0) [claude_fails]"
    by (simp add: claude_fails_def foreign_to_def)
  from hello_stream_with_distinct_ids [OF l c e n f n n n, of _ 200] l c e f show ?thesis
    by simp
qed




text \<open>
  C3, where two turns carry the same id: the request of the second reply fails with
  status 500 and its exchange is failed, but its turn (index 6) keeps \<open>loading = true\<close>
  and gets no error; the error and \<open>loading = false\<close> are written to the turn of the
  first reply (index 4), which belongs to the other model and whose exchange is still
  pending.
\<close>

theorem C3_failure_written_to_other_turn:
  "snd replies_collide ! 3 = (claude_reply, Pending) \<and>
   messages (fst replies_collide) ! 6 = claude_reply \<and>
   messages (fst replies_collide) ! 4 = gpt_reply \<and>
   model gpt_reply = Some ''openai/gpt-4'' \<and>
   model claude_reply = Some ''anthropic/claude-3'' \<and>
   snd claude_reply_fails ! 3 = (claude_reply, Failed) \<and>
   error (messages (fst claude_reply_fails) ! 6) = None \<and>
   loading (messages (fst claude_reply_fails) ! 6) = Some True \<and>
   error (messages (fst claude_reply_fails) ! 4) = Some ''Status: 500'' \<and>
   loading (messages (fst claude_reply_fails) ! 4) = Some False \<and>
   snd claude_reply_fails ! 2 = (gpt_reply, Pending)"
  by (simp add: replies_collide_fields claude_reply_fails_fields)

text \<open>
  C7, where two turns carry the same id: the exchange of the second reply receives the
  three chunks and the end of the stream and is complete, but its turn (index 6) stays
  empty and loading; \<open>Hello\<close> and \<open>loading = false\<close> are written to the turn of the
  first reply (index 4), whose exchange is still pending.
\<close>

theorem C7_hello_written_to_other_turn:
  "snd replies_collide ! 3 = (claude_reply, Pending) \<and>
   messages (fst replies_collide) ! 6 = claude_reply \<and>
   messages (fst replies_collide) ! 4 = gpt_reply \<and>
   model gpt_reply = Some ''openai/gpt-4'' \<and>
   model claude_reply = Some ''anthropic/claude-3'' \<and>
   snd claude_reply_streams ! 3 = (claude_reply, Complete) \<and>
   content (messages (fst claude_reply_streams) ! 6) = [] \<and>
   loading (messages (fst claude_reply_streams) ! 6) = Some True \<and>
   content (messages (fst claude_reply_streams) ! 4) = ''Hello'' \<and>
   loading (messages (fst claude_reply_streams) ! 4) = Some False \<and>
   snd claude_reply_streams ! 2 = (gpt_reply, Pending)"
  by (simp add: replies_collide_fields claude_reply_streams_fields)

text \<open>The log of C9 at the clock reading 7.\<close>

theorem C9_same_reading_same_ids_witness:
  "map id' (messages (fst (run [Dispatch 7 (\<lambda>_. 7) (ModelArgument ''a''),
                                Dispatch 7 (\<lambda>_. 7) (ModelArgument ''b'')] collision_start))) =
     [''7'', ''7-0'', ''7'', ''7-0'']"
  using C9_same_reading_same_ids [of 7] by simp

section \<open>Model Catalog\<close>

text \<open>
  C8: the provider of "openai/gpt-4" is "openai", of "gpt-4" is "openai", of
  "claude-3-opus" is "anthropic" and of "llama3:8b" is "llama3"; the display name of
  "openai/gpt-4" and of "gpt-4" is "gpt-4".
\<close>

theorem C8_provider_display_name:
  "getProvider ''openai/gpt-4'' = ''openai'' \<and>
   getProvider ''gpt-4'' = ''openai'' \<and>
   getProvider ''claude-3-opus'' = ''anthropic'' \<and>
   getProvider ''llama3:8b'' = ''llama3'' \<and>
   getDisplayName ''openai/gpt-4'' = ''gpt-4'' \<and>
   getDisplayName ''gpt-4'' = ''gpt-4''"
  by (simp add: getProvider_def getDisplayName_def first_or_def or_else_def)

end
